theory Spec2Isabelle
  imports Complex_Main "HOL-Library.Sublist"
begin

section \<open>Symphony: the generative models of \<open>models.py\<close> and \<open>position_predictor.py\<close>\<close>

text \<open>
  The radii are arrays of single-precision numbers and are modelled as such, with the
  rounding of every operation. The other arrays of floating-point numbers are modelled
  as lists of \<^typ>\<open>real\<close>, Python's unbounded integers as \<^typ>\<open>int\<close>, counts and
  shapes as \<^typ>\<open>nat\<close>. An exception raised by the source is the \<open>Inl\<close> branch of a
  sum.
\<close>

datatype py_error = ValueError | AssertionError | AttributeError | IndexError | TypeError
  | UnboundLocalError

subsection \<open>\<open>S2Activation._complete_lmax_and_res\<close>\<close>

text \<open>
  The three arguments are \<open>Optional[int]\<close>. The source fills \<open>res_beta\<close> first, then
  \<open>res_alpha\<close> (reading the \<open>res_beta\<close> just filled), then \<open>lmax\<close>, and ends with two
  assertions. Arithmetic on a value that is still \<open>None\<close> would raise \<open>TypeError\<close>.
  Python's \<open>//\<close> and \<open>%\<close> round towards minus infinity, as \<open>div\<close> and \<open>mod\<close> on
  \<^typ>\<open>int\<close> do.
\<close>

definition fill_res_beta :: "int option \<Rightarrow> int option \<Rightarrow> int option \<Rightarrow> int option" where
  "fill_res_beta lmax res_beta res_alpha =
     (case res_beta of
        Some b \<Rightarrow> Some b
      | None \<Rightarrow>
          (case lmax of
             Some l \<Rightarrow> Some (2 * (l + 1))
           | None \<Rightarrow>
               (case res_alpha of
                  Some a \<Rightarrow> Some (2 * ((a + 1) div 2))
                | None \<Rightarrow> None)))"

definition fill_res_alpha :: "int option \<Rightarrow> int option \<Rightarrow> int option \<Rightarrow> int option" where
  "fill_res_alpha lmax res_beta res_alpha =
     (case res_alpha of
        Some a \<Rightarrow> Some a
      | None \<Rightarrow>
          (case lmax of
             Some l \<Rightarrow>
               (case res_beta of
                  Some b \<Rightarrow> Some (max (2 * l + 1) (b - 1))
                | None \<Rightarrow> Some (2 * l + 1))
           | None \<Rightarrow>
               (case res_beta of
                  Some b \<Rightarrow> Some (b - 1)
                | None \<Rightarrow> None)))"

definition fill_lmax :: "int option \<Rightarrow> int option \<Rightarrow> int option \<Rightarrow> py_error + int" where
  "fill_lmax lmax res_beta res_alpha =
     (case lmax of
        Some l \<Rightarrow> Inr l
      | None \<Rightarrow>
          (case (res_beta, res_alpha) of
             (Some b, Some a) \<Rightarrow> Inr (min (b div 2 - 1) ((a - 1) div 2))
           | _ \<Rightarrow> Inl TypeError))"

definition complete_lmax_and_res ::
  "int option \<Rightarrow> int option \<Rightarrow> int option \<Rightarrow> py_error + (int \<times> int \<times> int)" where
  "complete_lmax_and_res lmax res_beta res_alpha =
     (if lmax = None \<and> res_beta = None \<and> res_alpha = None then Inl ValueError
      else
        let res_beta' = fill_res_beta lmax res_beta res_alpha;
            res_alpha' = fill_res_alpha lmax res_beta' res_alpha
        in case fill_lmax lmax res_beta' res_alpha' of
             Inl e \<Rightarrow> Inl e
           | Inr lmax' \<Rightarrow>
               (case (res_beta', res_alpha') of
                  (Some b, Some a) \<Rightarrow>
                    if b mod 2 \<noteq> 0 then Inl AssertionError
                    else if \<not> lmax' + 1 \<le> b div 2 then Inl AssertionError
                    else Inr (lmax', b, a)
                | _ \<Rightarrow> Inl TypeError))"

subsection \<open>Floating-point numbers\<close>

text \<open>
  \<open>round_half_even\<close> rounds to the nearest integer, a tie to the even one.
  \<open>rnd p emin x\<close> is \<open>x\<close> rounded to the nearest number with \<open>p\<close> significant bits
  whose exponent is at least \<open>emin\<close>: the grid around \<open>x\<close> has the spacing
  \<open>2 ^ (e - p + 1)\<close>, where \<open>e\<close> is the exponent of \<open>x\<close>, or \<open>emin\<close> when \<open>x\<close> is
  subnormal. \<open>rnd32\<close> is the rounding of binary32 (\<open>float32\<close>) and \<open>rnd64\<close> that of
  binary64 (Python's \<open>float\<close>), both before overflow is looked at.
\<close>

definition round_half_even :: "real \<Rightarrow> int" where
  "round_half_even x =
     (let n = \<lfloor>x\<rfloor>; r = x - of_int n
      in if r < 1 / 2 then n else if 1 / 2 < r then n + 1 else if even n then n else n + 1)"

definition rnd :: "nat \<Rightarrow> int \<Rightarrow> real \<Rightarrow> real" where
  "rnd p emin x =
     (if x = 0 then 0
      else let e = max \<lfloor>log 2 \<bar>x\<bar>\<rfloor> emin; q = e - int p + 1
           in of_int (round_half_even (x / 2 powi q)) * 2 powi q)"

text \<open>The spacing of the grid on which \<open>x\<close> is rounded.\<close>

definition ulp_exp :: "nat \<Rightarrow> int \<Rightarrow> real \<Rightarrow> int" where
  "ulp_exp p emin x = max \<lfloor>log 2 \<bar>x\<bar>\<rfloor> emin - int p + 1"

definition rnd32 :: "real \<Rightarrow> real" where
  "rnd32 = rnd 24 (- 126)"

definition rnd64 :: "real \<Rightarrow> real" where
  "rnd64 = rnd 53 (- 1022)"

text \<open>
  A \<open>float32\<close> is a finite number, an infinity or a NaN; \<open>fl32\<close> rounds a real to
  it, a result beyond the largest finite number \<open>(2 ^ 24 - 1) * 2 ^ 104\<close> being an
  infinity. The operations are those of IEEE 754: the exact result of finite operands
  is rounded once. The two zeros are identified: their sign shows only in a division
  by zero.
\<close>

datatype float32 = Finite real | PInf | NInf | NaN

definition fl32 :: "real \<Rightarrow> float32" where
  "fl32 x =
     (let r = rnd32 x
      in if 2 ^ 128 \<le> r then PInf else if r \<le> - (2 ^ 128) then NInf else Finite r)"

fun f32_neg :: "float32 \<Rightarrow> float32" where
  "f32_neg (Finite x) = Finite (- x)"
| "f32_neg PInf = NInf"
| "f32_neg NInf = PInf"
| "f32_neg NaN = NaN"

fun f32_add :: "float32 \<Rightarrow> float32 \<Rightarrow> float32" where
  "f32_add (Finite x) (Finite y) = fl32 (x + y)"
| "f32_add NaN y = NaN"
| "f32_add x NaN = NaN"
| "f32_add PInf NInf = NaN"
| "f32_add NInf PInf = NaN"
| "f32_add PInf y = PInf"
| "f32_add NInf y = NInf"
| "f32_add (Finite x) y = y"

definition f32_sub :: "float32 \<Rightarrow> float32 \<Rightarrow> float32" where
  "f32_sub x y = f32_add x (f32_neg y)"

fun f32_mul :: "float32 \<Rightarrow> float32 \<Rightarrow> float32" where
  "f32_mul (Finite x) (Finite y) = fl32 (x * y)"
| "f32_mul NaN y = NaN"
| "f32_mul x NaN = NaN"
| "f32_mul (Finite x) PInf = (if x = 0 then NaN else if 0 < x then PInf else NInf)"
| "f32_mul (Finite x) NInf = (if x = 0 then NaN else if 0 < x then NInf else PInf)"
| "f32_mul PInf (Finite y) = (if y = 0 then NaN else if 0 < y then PInf else NInf)"
| "f32_mul NInf (Finite y) = (if y = 0 then NaN else if 0 < y then NInf else PInf)"
| "f32_mul PInf PInf = PInf"
| "f32_mul PInf NInf = NInf"
| "f32_mul NInf PInf = NInf"
| "f32_mul NInf NInf = PInf"

fun f32_div :: "float32 \<Rightarrow> float32 \<Rightarrow> float32" where
  "f32_div (Finite x) (Finite y) =
     (if y \<noteq> 0 then fl32 (x / y)
      else if x = 0 then NaN else if 0 < x then PInf else NInf)"
| "f32_div NaN y = NaN"
| "f32_div x NaN = NaN"
| "f32_div (Finite x) y = Finite 0"
| "f32_div PInf (Finite y) = (if 0 \<le> y then PInf else NInf)"
| "f32_div NInf (Finite y) = (if 0 \<le> y then NInf else PInf)"
| "f32_div x y = NaN"

fun f32_less :: "float32 \<Rightarrow> float32 \<Rightarrow> bool" where
  "f32_less (Finite x) (Finite y) = (x < y)"
| "f32_less NaN y = False"
| "f32_less x NaN = False"
| "f32_less x NInf = False"
| "f32_less PInf y = False"
| "f32_less NInf y = True"
| "f32_less (Finite x) PInf = True"

subsection \<open>Radii: \<open>RADII\<close> and \<open>create_radii\<close>\<close>

text \<open>
  \<open>jnp.linspace(start, stop, num)\<close> with Python floats as bounds computes in
  \<open>float32\<close> (the default configuration, without \<open>jax_enable_x64\<close>), with the end
  point included: a negative \<open>num\<close> raises \<open>ValueError\<close>; the bounds are converted to
  \<open>float32\<close>; for \<open>num > 1\<close> entry \<open>i < num - 1\<close> is
  \<open>start * (1 - step) + stop * step\<close> with \<open>step = i / (num - 1)\<close>, every operation
  in \<open>float32\<close>, and the last entry is \<open>stop\<close> itself.

  \<open>jnp.arange(start, stop, step)\<close> with Python floats returns
  \<open>numpy.arange(start, stop, step, dtype=float32)\<close>: the length
  \<open>ceil((stop - start) / step)\<close> and the sum \<open>start + step\<close> are computed in double
  precision, the first two entries are \<open>start\<close> and \<open>start + step\<close> converted to
  \<open>float32\<close>, and entry \<open>i \<ge> 2\<close> is \<open>first + i * delta\<close> in \<open>float32\<close>, where
  \<open>delta\<close> is the second entry minus the first. The literals \<open>0.75\<close>, \<open>2.03\<close> and
  \<open>0.02\<close> are the doubles nearest to these decimals.
\<close>

definition linspace :: "real \<Rightarrow> real \<Rightarrow> int \<Rightarrow> py_error + float32 list" where
  "linspace start stop num =
     (if num < 0 then Inl ValueError
      else
        let n = nat num; a = fl32 start; b = fl32 stop; d = fl32 (real (n - 1))
        in Inr (if n = 0 then []
                else if n = 1 then [a]
                else map (\<lambda>i. let step = f32_div (fl32 (real i)) d
                               in f32_add (f32_mul a (f32_sub (Finite 1) step)) (f32_mul b step))
                       [0..<n - 1]
                     @ [b]))"

definition arange :: "real \<Rightarrow> real \<Rightarrow> real \<Rightarrow> float32 list" where
  "arange start stop step =
     (let len = nat \<lceil>rnd64 (rnd64 (stop - start) / step)\<rceil>;
          first = fl32 start;
          second = fl32 (rnd64 (start + step));
          delta = f32_sub second first
      in take len
           ([first, second]
            @ map (\<lambda>i. f32_add first (f32_mul (fl32 (real i)) delta)) [2..<len]))"

definition RADII :: "float32 list" where
  "RADII = arange (rnd64 0.75) (rnd64 2.03) (rnd64 0.02)"

definition NUM_ELEMENTS :: nat where
  "NUM_ELEMENTS = 5"

record TargetPositionPredictor =
  position_coeffs_lmax :: int
  res_beta :: int
  res_alpha :: int
  num_channels :: int
  num_species :: int
  min_radius :: real
  max_radius :: real
  num_radii :: int
  apply_gate :: bool

record FactorizedTargetPositionPredictor = TargetPositionPredictor +
  radial_mlp_latent_size :: int
  radial_mlp_num_layers :: int
  radial_mlp_activation :: "real list \<Rightarrow> real list"

text \<open>
  \<open>min_radius\<close> and \<open>max_radius\<close> are Python floats; \<open>linspace\<close> converts them to
  \<open>float32\<close>.
\<close>

definition create_radii :: "TargetPositionPredictor \<Rightarrow> py_error + float32 list" where
  "create_radii self = linspace (min_radius self) (max_radius self) (num_radii self)"

definition factorized_create_radii ::
  "FactorizedTargetPositionPredictor \<Rightarrow> py_error + float32 list" where
  "factorized_create_radii self = linspace (min_radius self) (max_radius self) (num_radii self)"

text \<open>A joint and a factorized predictor with three radii between 1 and 2.\<close>

definition demo_predictor :: TargetPositionPredictor where
  "demo_predictor = \<lparr>position_coeffs_lmax = 2, res_beta = 30, res_alpha = 51, num_channels = 1,
     num_species = 5, min_radius = 1, max_radius = 2, num_radii = 3, apply_gate = False\<rparr>"

definition demo_factorized :: FactorizedTargetPositionPredictor where
  "demo_factorized = \<lparr>position_coeffs_lmax = 2, res_beta = 30, res_alpha = 51, num_channels = 1,
     num_species = 5, min_radius = 1, max_radius = 2, num_radii = 3, apply_gate = False,
     radial_mlp_latent_size = 8, radial_mlp_num_layers = 2, radial_mlp_activation = (\<lambda>x. x)\<rparr>"

text \<open>
  Two predictors whose bounds satisfy \<open>min_radius < max_radius\<close>: one with bounds of
  large magnitude, one with bounds one \<open>float32\<close> step apart (\<open>1\<close> and
  \<open>1 + 2^-23\<close>).
\<close>

definition wide_predictor :: TargetPositionPredictor where
  "wide_predictor = demo_predictor\<lparr>min_radius := 16777216, max_radius := 16777218\<rparr>"

definition narrow_predictor :: TargetPositionPredictor where
  "narrow_predictor = demo_predictor\<lparr>min_radius := 1, max_radius := 8388609 / 8388608\<rparr>"

subsection \<open>\<open>S2Activation\<close>\<close>

text \<open>
  An \<open>e3nn.Irreps\<close> is a list of \<open>(mul, (l, p))\<close>; an \<open>IrrepsArray\<close> pairs one with
  an array of coefficients whose last axis has \<open>irreps.dim\<close> entries. \<open>simplify\<close> is \<open>Irreps.simplify\<close>: neighbours with the same irrep
  are merged and entries of multiplicity zero dropped; \<open>irreps_ls\<close> is \<open>Irreps.ls\<close>.

  \<open>S2Activation\<close> is a dataclass with the five fields below.
  \<open>S2Activation_getattr\<close> is attribute lookup on it by name: a name that is not a
  field raises \<open>AttributeError\<close>. \<open>_extract_irreps_info\<close> reads \<open>self.res\<close>; the
  \<open>except TypeError\<close> around that read does not catch \<open>AttributeError\<close>.
  \<open>call_complete_lmax_and_res\<close> is the \<open>try\<close>/\<open>except TypeError\<close> of the source:
  unpacking \<open>*res\<close> works on a pair and raises \<open>TypeError\<close> on an int, in which case
  the value is passed as \<open>res_beta\<close> alone. The local \<open>lmax_out\<close> is assigned only when
  the field \<open>lmax_out\<close> is \<open>None\<close>, so the \<open>return\<close> would raise
  \<open>UnboundLocalError\<close> otherwise.

  The spherical transforms of e3nn (\<open>to_s2grid\<close>, the grid's \<open>apply\<close>, \<open>LayerNorm\<close>,
  \<open>from_s2grid\<close>) are library code and enter \<open>S2Activation_call\<close> as parameters.
\<close>

type_synonym irrep = "nat \<times> int"
type_synonym irreps = "(int \<times> irrep) list"

record 'a IrrepsArray =
  ia_irreps :: irreps
  ia_array :: 'a

fun simplify :: "irreps \<Rightarrow> irreps \<Rightarrow> irreps" where
  "simplify out [] = out"
| "simplify out ((mul, ir) # rest) =
     (if out \<noteq> [] \<and> snd (last out) = ir
        then simplify (butlast out @ [(fst (last out) + mul, ir)]) rest
      else if mul > 0 then simplify (out @ [(mul, ir)]) rest
      else simplify out rest)"

definition irreps_ls :: "irreps \<Rightarrow> nat list" where
  "irreps_ls irs = concat (map (\<lambda>(mul, (l, p)). replicate (nat mul) l) irs)"

datatype resolution = Res int | ResPair int int

record S2Activation =
  irreps :: irreps
  resolution :: resolution
  activation :: "real \<Rightarrow> real"
  lmax_out :: "int option"
  layer_norm :: bool

datatype attr_value =
    IrrepsAttr irreps
  | ResolutionAttr resolution
  | ActivationAttr "real \<Rightarrow> real"
  | LmaxOutAttr "int option"
  | LayerNormAttr bool

definition S2Activation_getattr :: "S2Activation \<Rightarrow> string \<Rightarrow> py_error + attr_value" where
  "S2Activation_getattr self name =
     (if name = ''irreps'' then Inr (IrrepsAttr (irreps self))
      else if name = ''resolution'' then Inr (ResolutionAttr (resolution self))
      else if name = ''activation'' then Inr (ActivationAttr (activation self))
      else if name = ''lmax_out'' then Inr (LmaxOutAttr (lmax_out self))
      else if name = ''layer_norm'' then Inr (LayerNormAttr (layer_norm self))
      else Inl AttributeError)"

definition call_complete_lmax_and_res ::
  "int \<Rightarrow> attr_value \<Rightarrow> py_error + (int \<times> int \<times> int)" where
  "call_complete_lmax_and_res lmax res =
     (let unpacked =
            (case res of
               ResolutionAttr (ResPair rb ra) \<Rightarrow> complete_lmax_and_res (Some lmax) (Some rb) (Some ra)
             | _ \<Rightarrow> Inl TypeError)
      in case unpacked of
           Inl TypeError \<Rightarrow>
             (case res of
                ResolutionAttr (Res r) \<Rightarrow> complete_lmax_and_res (Some lmax) (Some r) None
              | _ \<Rightarrow> Inl TypeError)
         | other \<Rightarrow> other)"

definition extract_irreps_info :: "S2Activation \<Rightarrow> py_error + (int \<times> int \<times> int \<times> int)" where
  "extract_irreps_info self =
     (let irs = simplify [] (irreps self)
      in if irs = [] then Inl IndexError
         else
           let lmax = int (fst (snd (last irs)))
           in if \<not> list_all (\<lambda>(mul, ir). mul = 1) irs then Inl AssertionError
              else if irreps_ls irs \<noteq> [0..<nat (lmax + 1)] then Inl AssertionError
              else
                case S2Activation_getattr self ''res'' of
                  Inl e \<Rightarrow> Inl e
                | Inr res \<Rightarrow>
                    (case call_complete_lmax_and_res lmax res of
                       Inl e \<Rightarrow> Inl e
                     | Inr (lmax', res_beta', res_alpha') \<Rightarrow>
                         (case lmax_out self of
                            None \<Rightarrow> Inr (lmax', res_beta', res_alpha', lmax)
                          | Some _ \<Rightarrow> Inl UnboundLocalError)))"

record 'g s2_transforms =
  to_s2grid :: "real list IrrepsArray \<Rightarrow> int \<Rightarrow> int \<Rightarrow> 'g"
  grid_apply :: "(real \<Rightarrow> real) \<Rightarrow> 'g \<Rightarrow> 'g"
  grid_layer_norm :: "'g \<Rightarrow> 'g"
  from_s2grid :: "'g \<Rightarrow> int \<Rightarrow> int \<Rightarrow> real list IrrepsArray"

definition S2Activation_call ::
  "'g s2_transforms \<Rightarrow> S2Activation \<Rightarrow> real list IrrepsArray
     \<Rightarrow> py_error + real list IrrepsArray" where
  "S2Activation_call T self feature_coeffs =
     (case extract_irreps_info self of
        Inl e \<Rightarrow> Inl e
      | Inr (lmax, rb, ra, lmax_out') \<Rightarrow>
          if ia_irreps feature_coeffs \<noteq> irreps self then Inl AssertionError
          else
            let features = to_s2grid T feature_coeffs rb ra;
                features = grid_apply T (activation self) features;
                features = (if layer_norm self then grid_layer_norm T features else features)
            in Inr (from_s2grid T features lmax_out' lmax))"

definition identity_s2_activation :: S2Activation where
  "identity_s2_activation =
     \<lparr>irreps = [(1, (0, 1)), (1, (1, - 1))], resolution = ResPair 4 3,
      activation = (\<lambda>x. x), lmax_out = None, layer_norm = False\<rparr>"

subsection \<open>\<open>GSchNet\<close>: the species head over all nodes\<close>

text \<open>
  A dense array is its shape and its entries in row-major order; \<open>rows\<close> cuts the
  entries along the last axis. \<open>embed_lookup\<close> is \<open>hk.Embed(vocab, dim)(ids)\<close>, of shape
  \<open>(len(ids), dim)\<close>. \<open>vmap_multiply a b\<close> is
  \<open>jax.vmap(lambda row: jnp.multiply(row, b))(a)\<close> for a matrix \<open>a\<close> whose rows are as
  wide as those of \<open>b\<close>: every row of \<open>a\<close> is multiplied into every row of \<open>b\<close>, so
  the result has one axis more than \<open>b\<close>. \<open>apply_mlp\<close> is an \<open>hk.nets.MLP\<close> whose last
  layer has \<open>out_size\<close> units: it acts on the last axis and keeps the others. The
  network with its weights is a field of the module; \<open>e3nn.scatter_sum\<close> is library
  code and a parameter.

  \<open>target_species_logits\<close> ends after its second assertion without a \<open>return\<close>
  statement, so a call that passes both assertions yields \<open>None\<close>;
  \<open>distance_logits\<close>, next to it, ends with \<open>return distance_logits\<close>.
\<close>

record ndarray =
  shape :: "nat list"
  flat :: "real list"

fun chunks :: "nat \<Rightarrow> nat \<Rightarrow> 'a list \<Rightarrow> 'a list list" where
  "chunks 0 width xs = []"
| "chunks (Suc k) width xs = take width xs # chunks k width (drop width xs)"

definition rows :: "ndarray \<Rightarrow> real list list" where
  "rows a = chunks (prod_list (butlast (shape a))) (last (shape a)) (flat a)"

definition embed_lookup :: "nat \<Rightarrow> (nat \<Rightarrow> real list) \<Rightarrow> nat list \<Rightarrow> ndarray" where
  "embed_lookup embed_dim table ids =
     \<lparr>shape = [length ids, embed_dim], flat = concat (map (\<lambda>i. take embed_dim (table i)) ids)\<rparr>"

definition vmap_multiply :: "ndarray \<Rightarrow> ndarray \<Rightarrow> ndarray" where
  "vmap_multiply a b =
     \<lparr>shape = hd (shape a) # shape b,
      flat = concat (map (\<lambda>row. concat (map (\<lambda>other. map2 (*) row other) (rows b))) (rows a))\<rparr>"

definition apply_mlp :: "(real list \<Rightarrow> real list) \<Rightarrow> nat \<Rightarrow> ndarray \<Rightarrow> ndarray" where
  "apply_mlp net out_size x =
     \<lparr>shape = butlast (shape x) @ [out_size],
      flat = concat (map (\<lambda>row. take out_size (net row)) (rows x))\<rparr>"

record GSchNet =
  latent_size :: nat
  num_interactions :: nat
  gschnet_activation :: "real \<Rightarrow> real"
  species_embedder :: "nat \<Rightarrow> real list"
  species_mlp :: "real list \<Rightarrow> real list"
  distance_mlp :: "real list \<Rightarrow> real list"

definition GSchNet_target_species_logits ::
  "(ndarray \<Rightarrow> nat list \<Rightarrow> py_error + ndarray) \<Rightarrow> GSchNet \<Rightarrow> ndarray \<Rightarrow> nat list
     \<Rightarrow> py_error + ndarray option" where
  "GSchNet_target_species_logits scatter_sum self node_embeddings n_node =
     (if shape node_embeddings = [] then Inl IndexError
      else
      let num_nodes = hd (shape node_embeddings);
          num_graphs = length n_node;
          all_species_embeddings =
            embed_lookup (latent_size self) (species_embedder self) [0..<NUM_ELEMENTS];
          node_and_species_embeddings = vmap_multiply node_embeddings all_species_embeddings;
          target_species_logits =
            apply_mlp (species_mlp self) NUM_ELEMENTS node_and_species_embeddings
      in if shape target_species_logits \<noteq> [num_nodes, NUM_ELEMENTS] then Inl AssertionError
         else
           case scatter_sum target_species_logits n_node of
             Inl e \<Rightarrow> Inl e
           | Inr target_species_logits' \<Rightarrow>
               if shape target_species_logits' \<noteq> [num_graphs, NUM_ELEMENTS]
               then Inl AssertionError
               else Inr None)"

definition GSchNet_distance_logits :: "GSchNet \<Rightarrow> ndarray \<Rightarrow> nat list \<Rightarrow> py_error + ndarray" where
  "GSchNet_distance_logits self node_embeddings target_species =
     (if shape node_embeddings = [] then Inl IndexError
      else
      let num_nodes = hd (shape node_embeddings);
          target_species_embeddings =
            embed_lookup (latent_size self) (species_embedder self) target_species;
          node_and_target_species_embeddings =
            vmap_multiply node_embeddings target_species_embeddings;
          distance_logits =
            apply_mlp (distance_mlp self) (length RADII) node_and_target_species_embeddings
      in if shape distance_logits \<noteq> [num_nodes, length RADII] then Inl AssertionError
         else Inr distance_logits)"

definition demo_gschnet :: GSchNet where
  "demo_gschnet = \<lparr>latent_size = 2, num_interactions = 1, gschnet_activation = (\<lambda>x. x),
     species_embedder = (\<lambda>i. [real i, 1]), species_mlp = (\<lambda>v. replicate 5 (sum_list v)),
     distance_mlp = (\<lambda>v. replicate 64 (sum_list v))\<rparr>"

subsection \<open>Arrays, gathers and the pseudo-random generator\<close>

text \<open>
  \<open>then_do\<close> sequences two steps, the first exception ending the run. \<open>broadcast2\<close> is
  NumPy broadcasting of two one-dimensional arrays: equal lengths pair up entry by entry,
  an array of one entry is repeated, anything else raises. \<open>jnp_getitem xs idx\<close> is
  \<open>xs[idx]\<close> for an index array: a negative index counts from the end and an index out
  of range is clamped to the nearest row; an array without rows gives the empty result
  for an empty index array and raises for any other. \<open>jnp_take\<close> is \<open>jnp.take\<close> on an integer array in
  its default mode, which fills an out-of-range read with the least 32-bit integer.
\<close>

definition then_do :: "'e + 'a \<Rightarrow> ('a \<Rightarrow> 'e + 'b) \<Rightarrow> 'e + 'b" where
  "then_do r f = (case r of Inl e \<Rightarrow> Inl e | Inr x \<Rightarrow> f x)"

definition broadcast2 :: "'a list \<Rightarrow> 'b list \<Rightarrow> py_error + ('a \<times> 'b) list" where
  "broadcast2 xs ys =
     (if length xs = length ys then Inr (zip xs ys)
      else if length xs = 1 then Inr (map (\<lambda>y. (hd xs, y)) ys)
      else if length ys = 1 then Inr (map (\<lambda>x. (x, hd ys)) xs)
      else Inl ValueError)"

fun cumsum_from :: "'a::monoid_add \<Rightarrow> 'a list \<Rightarrow> 'a list" where
  "cumsum_from acc [] = []"
| "cumsum_from acc (x # xs) = (acc + x) # cumsum_from (acc + x) xs"

definition cumsum :: "'a::monoid_add list \<Rightarrow> 'a list" where
  "cumsum xs = cumsum_from 0 xs"

definition INT_MIN :: int where
  "INT_MIN = - 2147483648"

definition jnp_take :: "int list \<Rightarrow> int \<Rightarrow> int" where
  "jnp_take a i =
     (let n = int (length a); j = (if i < 0 then i + n else i)
      in if 0 \<le> j \<and> j < n then a ! nat j else INT_MIN)"

definition clamp_index :: "nat \<Rightarrow> int \<Rightarrow> nat" where
  "clamp_index n i = nat (max 0 (min (int n - 1) (if i < 0 then i + int n else i)))"

definition jnp_getitem :: "'a list \<Rightarrow> int list \<Rightarrow> py_error + 'a list" where
  "jnp_getitem xs idx =
     (if xs = [] then (if idx = [] then Inr [] else Inl TypeError)
      else Inr (map (\<lambda>i. xs ! clamp_index (length xs) i) idx))"

text \<open>
  \<open>jnp.searchsorted(a, v)\<close> on a sorted array is the first position at which \<open>v\<close> can be
  inserted, that is the number of leading entries below \<open>v\<close>.

  The generator is JAX's: a key is split into \<open>num\<close> keys, of which \<open>split_key k num i\<close>
  is the \<open>i\<close>-th, and \<open>uniform\<close> draws a number of the interval \<open>[0, 1)\<close> from a key.
  \<open>jax.random.choice(key, a, p=p)\<close> takes the running sums of \<open>p\<close>, scales the last of
  them by \<open>1 - uniform(key)\<close> and looks the result up in the running sums; for an array
  \<open>a\<close> it returns the entry found there, for an integer \<open>a\<close> the position itself. Its
  checks (\<open>a\<close> not empty, \<open>p\<close> as long as \<open>a\<close>) depend on shapes alone and are made by the
  callers below, once, as tracing under \<open>vmap\<close> does.
\<close>

definition searchsorted :: "real list \<Rightarrow> real \<Rightarrow> nat" where
  "searchsorted a v = length (takeWhile (\<lambda>c. c < v) a)"

record 'k prng =
  split_key :: "'k \<Rightarrow> nat \<Rightarrow> nat \<Rightarrow> 'k"
  uniform :: "'k \<Rightarrow> real"

definition random_split :: "'k prng \<Rightarrow> 'k \<Rightarrow> nat \<Rightarrow> 'k list" where
  "random_split R key num = map (split_key R key num) [0..<num]"

definition choice_index :: "'k prng \<Rightarrow> 'k \<Rightarrow> real list \<Rightarrow> nat" where
  "choice_index R key p =
     (let p_cuml = cumsum p;
          r = last p_cuml * (1 - uniform R key)
      in searchsorted p_cuml r)"

definition random_choice :: "'k prng \<Rightarrow> 'k \<Rightarrow> int list \<Rightarrow> real list \<Rightarrow> int" where
  "random_choice R key a p = jnp_take a (int (choice_index R key p))"

definition random_choice_int :: "'k prng \<Rightarrow> 'k \<Rightarrow> nat \<Rightarrow> real list \<Rightarrow> int" where
  "random_choice_int R key a p = int (choice_index R key p)"

subsection \<open>\<open>get_first_node_indices\<close> and \<open>segment_sample\<close>\<close>

text \<open>
  The node counts are an array of 32-bit integers, and \<open>jnp.cumsum\<close> adds within that
  type: a running sum beyond the range wraps around (\<open>int32\<close>).
\<close>

definition int32 :: "int \<Rightarrow> int" where
  "int32 x = (x + 2147483648) mod 4294967296 - 2147483648"

definition get_first_node_indices :: "nat list \<Rightarrow> int list" where
  "get_first_node_indices n_node = [0] @ butlast (map int32 (cumsum (map int n_node)))"

definition masked_probabilities :: "int \<Rightarrow> (int \<times> real) list \<Rightarrow> real list" where
  "masked_probabilities i pairs = map (\<lambda>(s, p). if i = s then p else 0) pairs"

definition sample_for_segment ::
  "'k prng \<Rightarrow> (int \<times> real) list \<Rightarrow> int list \<Rightarrow> 'k \<Rightarrow> int \<Rightarrow> int" where
  "sample_for_segment R pairs node_indices rng i =
     random_choice R rng node_indices (masked_probabilities i pairs)"

definition segment_sample ::
  "'k prng \<Rightarrow> real list \<Rightarrow> int list \<Rightarrow> nat \<Rightarrow> 'k \<Rightarrow> py_error + int list" where
  "segment_sample R probabilities segment_ids num_segments rng =
     (let node_indices = map int [0..<length segment_ids];
          rngs = random_split R rng num_segments
      in then_do (broadcast2 segment_ids probabilities) (\<lambda>pairs.
           if node_indices = [] then Inl ValueError
           else if length pairs \<noteq> length node_indices then Inl ValueError
           else Inr (map2 (sample_for_segment R pairs node_indices)
                       rngs (map int [0..<num_segments]))))"

subsection \<open>The per-graph softmax of jraph\<close>

text \<open>
  \<open>jnp_repeat_arange repeats total\<close> is
  \<open>jnp.repeat(jnp.arange(len(repeats)), repeats, axis=0, total_repeat_length=total)\<close>:
  entry \<open>j\<close> is one less than the number of segments starting at or before \<open>j\<close>, where
  segment \<open>i\<close> starts at the sum of the repeats before it.

  \<open>jraph.partition_softmax(logits, partitions, sum_partitions)\<close> builds these segment
  ids and, per node, subtracts the maximum of the node's segment, exponentiates, and
  divides by the segment's sum of exponentials. \<open>segment_max\<close> of a segment without
  entries is minus infinity in the library; no node reads it, since the segment a node
  reads contains the node.
\<close>

definition jnp_repeat_arange :: "nat list \<Rightarrow> nat \<Rightarrow> int list" where
  "jnp_repeat_arange repeats total_repeat_length =
     (let scatter_indices = (if repeats = [] then [] else cumsum (0 # butlast repeats));
          gather_indices =
            map (\<lambda>j. int (length (filter (\<lambda>s. s \<le> j) scatter_indices)) - 1)
              [0..<total_repeat_length]
      in map (jnp_take (map int [0..<length repeats])) gather_indices)"

definition segment_entries :: "real list \<Rightarrow> int list \<Rightarrow> int \<Rightarrow> real list" where
  "segment_entries data segment_ids s = map fst (filter (\<lambda>(x, i). i = s) (zip data segment_ids))"

definition segment_max :: "real list \<Rightarrow> int list \<Rightarrow> nat \<Rightarrow> real list" where
  "segment_max data segment_ids num_segments =
     map (\<lambda>s. Max (set (segment_entries data segment_ids (int s)))) [0..<num_segments]"

definition segment_sum :: "real list \<Rightarrow> int list \<Rightarrow> nat \<Rightarrow> real list" where
  "segment_sum data segment_ids num_segments =
     map (\<lambda>s. sum_list (segment_entries data segment_ids (int s))) [0..<num_segments]"

definition shifted_exponentials :: "real list \<Rightarrow> int list \<Rightarrow> nat \<Rightarrow> py_error + real list" where
  "shifted_exponentials logits segment_ids num_segments =
     then_do (jnp_getitem (segment_max logits segment_ids num_segments) segment_ids) (\<lambda>maxs.
     then_do (broadcast2 logits maxs) (\<lambda>pairs.
       Inr (map (\<lambda>(l, m). exp (l - m)) pairs)))"

definition softmax_normalizers :: "real list \<Rightarrow> int list \<Rightarrow> nat \<Rightarrow> py_error + real list" where
  "softmax_normalizers logits segment_ids num_segments =
     then_do (shifted_exponentials logits segment_ids num_segments) (\<lambda>exps.
       Inr (segment_sum exps segment_ids num_segments))"

definition segment_softmax :: "real list \<Rightarrow> int list \<Rightarrow> nat \<Rightarrow> py_error + real list" where
  "segment_softmax logits segment_ids num_segments =
     then_do (shifted_exponentials logits segment_ids num_segments) (\<lambda>exps.
     then_do (softmax_normalizers logits segment_ids num_segments) (\<lambda>totals.
     then_do (jnp_getitem totals segment_ids) (\<lambda>normalizers.
     then_do (broadcast2 exps normalizers) (\<lambda>pairs.
       Inr (map (\<lambda>(e, n). e / n) pairs)))))"

definition partition_softmax :: "real list \<Rightarrow> nat list \<Rightarrow> nat \<Rightarrow> py_error + real list" where
  "partition_softmax logits partitions sum_partitions =
     segment_softmax logits (jnp_repeat_arange partitions sum_partitions) (length partitions)"

definition softmax :: "real list \<Rightarrow> real list" where
  "softmax xs =
     (let unnormalized = map (\<lambda>x. exp (x - Max (set xs))) xs
      in map (\<lambda>e. e / sum_list unnormalized) unnormalized)"

text \<open>A generator on numbers for the examples: keys are naturals, the uniform draw is the last decimal digit of the key.\<close>

definition demo_prng :: "nat prng" where
  "demo_prng =
     \<lparr>split_key = (\<lambda>k num i. 7 * k + num + i), uniform = (\<lambda>k. real (k mod 10) / 10)\<rparr>"

subsection \<open>Fragments and predictions\<close>

text \<open>
  Modelled from the spec: the module \<open>datatypes\<close> with the declarations of \<open>NodesInfo\<close>,
  the fragment's globals, \<open>Fragment\<close>, \<open>Predictions\<close> and \<open>EvaluationPredictions\<close> is
  not among the sources. The records below have the fields the sources read and build
  (\<open>graphs.nodes.positions\<close>, \<open>graphs.globals.target_species\<close>, \<open>graphs.n_node\<close>, the
  keyword arguments of the two prediction constructors), and the stop flag and target
  position of the spec's data model. A fragment is a jraph \<open>GraphsTuple\<close>: a batch of
  graphs whose nodes are stored one graph after the other, \<open>n_node\<close> counting the nodes
  of each graph.
\<close>

type_synonym vec3 = "real \<times> real \<times> real"

record NodesInfo =
  positions :: "vec3 list"
  species :: "int list"

record FragmentGlobals =
  stop :: "bool list"
  target_species :: "int list"
  target_positions :: "vec3 list"

record Fragment =
  nodes :: NodesInfo
  senders :: "int list"
  receivers :: "int list"
  n_node :: "nat list"
  n_edge :: "nat list"
  globals :: FragmentGlobals

record Predictions =
  focus_logits :: "real list"
  target_species_logits :: "real list list"
  position_coeffs :: "real list list list IrrepsArray"

record EvaluationPredictions = Predictions +
  focus_indices :: "int list"
  sampled_target_species :: "int list"

subsection \<open>Operations of e3nn on irreps arrays\<close>

text \<open>
  \<open>irreps_dim\<close> and \<open>num_irreps\<close> are \<open>Irreps.dim\<close> and \<open>Irreps.num_irreps\<close>;
  \<open>s2_irreps\<close> is \<open>e3nn.s2_irreps(lmax, p_val, p_arg)\<close>. In a row of an irreps array
  the entry \<open>(mul, (l, p))\<close> owns \<open>mul\<close> consecutive blocks of \<open>2 * l + 1\<close> numbers.
  \<open>filter_keep\<close> is \<open>IrrepsArray.filter(keep=ir)\<close> on a row, \<open>scale_row\<close> the product
  of a row with one scalar per block, and \<open>axis_to_mul\<close> the method of that name on an
  array of shape \<open>(nodes, n, dim)\<close>: for every entry of the irreps, the blocks it owns
  in each of the \<open>n\<close> rows are put side by side, which multiplies its \<open>mul\<close> by \<open>n\<close>.
\<close>

definition irreps_dim :: "irreps \<Rightarrow> nat" where
  "irreps_dim irs = sum_list (map (\<lambda>(mul, (l, p)). nat mul * (2 * l + 1)) irs)"

definition num_irreps :: "irreps \<Rightarrow> nat" where
  "num_irreps irs = sum_list (map (\<lambda>(mul, ir). nat mul) irs)"

definition s2_irreps :: "nat \<Rightarrow> int \<Rightarrow> int \<Rightarrow> irreps" where
  "s2_irreps lmax p_val p_arg = map (\<lambda>l. (1, (l, p_val * p_arg ^ l))) [0..<lmax + 1]"

fun filter_keep :: "irrep \<Rightarrow> irreps \<Rightarrow> real list \<Rightarrow> real list" where
  "filter_keep keep [] row = []"
| "filter_keep keep ((mul, ir) # irs) row =
     (let w = nat mul * (2 * fst ir + 1)
      in (if ir = keep then take w row else []) @ filter_keep keep irs (drop w row))"

fun scale_blocks :: "nat \<Rightarrow> nat \<Rightarrow> real list \<Rightarrow> real list \<Rightarrow> real list" where
  "scale_blocks 0 w scalars row = []"
| "scale_blocks (Suc k) w scalars row =
     map (\<lambda>x. hd scalars * x) (take w row) @ scale_blocks k w (tl scalars) (drop w row)"

fun scale_row :: "irreps \<Rightarrow> real list \<Rightarrow> real list \<Rightarrow> real list" where
  "scale_row [] scalars row = []"
| "scale_row ((mul, (l, p)) # irs) scalars row =
     scale_blocks (nat mul) (2 * l + 1) scalars row
     @ scale_row irs (drop (nat mul) scalars) (drop (nat mul * (2 * l + 1)) row)"

fun axis_to_mul_row :: "irreps \<Rightarrow> real list list \<Rightarrow> real list" where
  "axis_to_mul_row [] slices = []"
| "axis_to_mul_row ((mul, (l, p)) # irs) slices =
     concat (map (take (nat mul * (2 * l + 1))) slices)
     @ axis_to_mul_row irs (map (drop (nat mul * (2 * l + 1))) slices)"

definition axis_to_mul :: "nat \<Rightarrow> real list list list IrrepsArray \<Rightarrow> real list list IrrepsArray" where
  "axis_to_mul n x =
     \<lparr>ia_irreps = map (\<lambda>(mul, ir). (int n * mul, ir)) (ia_irreps x),
      ia_array = map (axis_to_mul_row (ia_irreps x)) (ia_array x)\<rparr>"

subsection \<open>The \<open>MACE\<close> wrapper\<close>

text \<open>
  \<open>MACE\<close> holds the arguments of \<open>__init__\<close>. The Haiku modules built inside its methods
  are library code with learned weights; \<open>MACE_modules\<close> holds what each of them
  computes: the network of \<open>mace_jax\<close> from relative vectors, species, senders and
  receivers to an array of shape \<open>(nodes, interactions, dim)\<close>; the linear map to one
  scalar per node; the perceptron on the scalar channels; the embedding of the target
  species; and the linear map to the position coefficients followed by \<open>mul_to_axis\<close>,
  one row of \<open>dim\<close> coefficients per radius.
\<close>

record MACE =
  output_irreps :: irreps
  r_max :: real
  num_interactions :: nat
  hidden_irreps :: irreps
  readout_mlp_irreps :: irreps
  avg_num_neighbors :: nat
  num_species :: nat
  max_ell :: nat
  position_coeffs_lmax :: nat
  run_in_evaluation_mode :: bool

record MACE_modules =
  mace_network :: "vec3 list \<Rightarrow> int list \<Rightarrow> int list \<Rightarrow> int list \<Rightarrow> real list list list"
  focus_linear :: "real list \<Rightarrow> real"
  species_perceptron :: "real list \<Rightarrow> real list"
  species_embed :: "int \<Rightarrow> real list"
  position_linear :: "real list \<Rightarrow> real list list"

definition vec_sub :: "vec3 \<Rightarrow> vec3 \<Rightarrow> vec3" where
  "vec_sub a b = (case (a, b) of ((a1, a2, a3), (b1, b2, b3)) \<Rightarrow> (a1 - b1, a2 - b2, a3 - b3))"

definition has_shape3 :: "real list list list \<Rightarrow> nat \<Rightarrow> nat \<Rightarrow> nat \<Rightarrow> bool" where
  "has_shape3 a n m d =
     (length a = n \<and> list_all (\<lambda>r. length r = m \<and> list_all (\<lambda>v. length v = d) r) a)"

definition has_shape2 :: "real list list \<Rightarrow> nat \<Rightarrow> nat \<Rightarrow> bool" where
  "has_shape2 a n d = (length a = n \<and> list_all (\<lambda>v. length v = d) a)"

definition MACE_node_embeddings ::
  "MACE_modules \<Rightarrow> MACE \<Rightarrow> Fragment \<Rightarrow> py_error + real list list IrrepsArray" where
  "MACE_node_embeddings M self graphs =
     then_do (jnp_getitem (positions (nodes graphs)) (receivers graphs)) (\<lambda>at_receivers.
     then_do (jnp_getitem (positions (nodes graphs)) (senders graphs)) (\<lambda>at_senders.
     then_do (broadcast2 at_receivers at_senders) (\<lambda>pairs.
       let vectors = map (\<lambda>(r, s). vec_sub r s) pairs;
           species' = species (nodes graphs);
           num_nodes = length species';
           node_embeddings =
             \<lparr>ia_irreps = output_irreps self,
              ia_array = mace_network M vectors species' (senders graphs) (receivers graphs)\<rparr>
       in if \<not> has_shape3 (ia_array node_embeddings) num_nodes (num_interactions self)
                 (irreps_dim (output_irreps self))
          then Inl AssertionError
          else Inr (axis_to_mul (num_interactions self) node_embeddings))))"

definition MACE_focus_logits :: "MACE_modules \<Rightarrow> real list list IrrepsArray \<Rightarrow> real list" where
  "MACE_focus_logits M node_embeddings = map (focus_linear M) (ia_array node_embeddings)"

definition MACE_target_species_logits ::
  "MACE_modules \<Rightarrow> real list list IrrepsArray \<Rightarrow> py_error + real list list" where
  "MACE_target_species_logits M focus_node_embeddings =
     (let num_graphs = length (ia_array focus_node_embeddings);
          species_logits =
            map (\<lambda>row. species_perceptron M
                   (filter_keep (0, 1) (ia_irreps focus_node_embeddings) row))
              (ia_array focus_node_embeddings)
      in if \<not> has_shape2 species_logits num_graphs NUM_ELEMENTS then Inl AssertionError
         else Inr species_logits)"

definition MACE_target_position ::
  "MACE_modules \<Rightarrow> MACE \<Rightarrow> real list list IrrepsArray \<Rightarrow> int list
     \<Rightarrow> py_error + real list list list IrrepsArray" where
  "MACE_target_position M self focus_node_embeddings target_species' =
     (let num_graphs = length (ia_array focus_node_embeddings);
          emb_irreps = ia_irreps focus_node_embeddings
      in if \<not> has_shape2 (ia_array focus_node_embeddings) num_graphs (irreps_dim emb_irreps)
         then Inl AssertionError
         else
           let irreps' = s2_irreps (position_coeffs_lmax self) 1 (- 1);
               target_species_embeddings = map (species_embed M) target_species'
           in if \<not> has_shape2 target_species_embeddings num_graphs (num_irreps emb_irreps)
              then Inl AssertionError
              else
                let position_coeffs' =
                      map (\<lambda>(scalars, row). position_linear M (scale_row emb_irreps scalars row))
                        (zip target_species_embeddings (ia_array focus_node_embeddings));
                    num_radii' = length RADII
                in if \<not> has_shape3 position_coeffs' num_graphs num_radii' (irreps_dim irreps')
                   then Inl AssertionError
                   else Inr \<lparr>ia_irreps = irreps', ia_array = position_coeffs'\<rparr>)"

definition get_training_predictions ::
  "MACE_modules \<Rightarrow> MACE \<Rightarrow> Fragment \<Rightarrow> py_error + Predictions" where
  "get_training_predictions M self graphs =
     then_do (MACE_node_embeddings M self graphs) (\<lambda>node_embeddings.
       let focus_logits' = MACE_focus_logits M node_embeddings;
           focus_node_indices = get_first_node_indices (n_node graphs)
       in then_do (jnp_getitem (ia_array node_embeddings) focus_node_indices) (\<lambda>focus_rows.
            let true_focus_node_embeddings = node_embeddings\<lparr>ia_array := focus_rows\<rparr>
            in then_do (MACE_target_species_logits M true_focus_node_embeddings)
                 (\<lambda>target_species_logits'.
               then_do (MACE_target_position M self true_focus_node_embeddings
                          (target_species (globals graphs))) (\<lambda>position_coeffs'.
                 Inr \<lparr>focus_logits = focus_logits',
                      target_species_logits = target_species_logits',
                      position_coeffs = position_coeffs'\<rparr>))))"

text \<open>
  \<open>hk.next_rng_key()\<close> splits the key that Haiku keeps for the running \<open>apply\<close> in two,
  keeps the first half and hands out the second. The evaluation pass takes that state
  and returns it next to its predictions. \<open>jax.vmap\<close> over two arrays needs them to be
  equally long (\<open>vmap_zip\<close>).
\<close>

definition vmap_zip :: "'a list \<Rightarrow> 'b list \<Rightarrow> py_error + ('a \<times> 'b) list" where
  "vmap_zip xs ys = (if length xs = length ys then Inr (zip xs ys) else Inl ValueError)"

definition next_rng_key :: "'k prng \<Rightarrow> 'k \<Rightarrow> 'k \<times> 'k" where
  "next_rng_key R hk_key = (random_split R hk_key 2 ! 1, random_split R hk_key 2 ! 0)"

definition focus_probs :: "MACE_modules \<Rightarrow> real list list IrrepsArray \<Rightarrow> Fragment
    \<Rightarrow> py_error + real list" where
  "focus_probs M node_embeddings graphs =
     partition_softmax (MACE_focus_logits M node_embeddings) (n_node graphs)
       (length (positions (nodes graphs)))"

definition get_evaluation_predictions ::
  "'k prng \<Rightarrow> MACE_modules \<Rightarrow> MACE \<Rightarrow> Fragment \<Rightarrow> 'k
     \<Rightarrow> py_error + (EvaluationPredictions \<times> 'k)" where
  "get_evaluation_predictions R M self graphs hk_key =
     (let (rng, hk_key') = next_rng_key R hk_key;
          num_nodes = length (positions (nodes graphs));
          num_graphs = length (n_node graphs)
      in then_do (MACE_node_embeddings M self graphs) (\<lambda>node_embeddings.
           let focus_logits' = MACE_focus_logits M node_embeddings
           in then_do (focus_probs M node_embeddings graphs) (\<lambda>focus_probs'.
                let rng1 = random_split R rng 2 ! 0;
                    focus_rng = random_split R rng 2 ! 1;
                    segment_ids = jnp_repeat_arange (n_node graphs) num_nodes
                in then_do (segment_sample R focus_probs' segment_ids num_graphs focus_rng)
                     (\<lambda>focus_indices'.
                   then_do (jnp_getitem (ia_array node_embeddings) focus_indices')
                     (\<lambda>focus_rows.
                     let focus_node_embeddings = node_embeddings\<lparr>ia_array := focus_rows\<rparr>
                     in then_do (MACE_target_species_logits M focus_node_embeddings)
                          (\<lambda>target_species_logits'.
                        let target_species_probs = map softmax target_species_logits';
                            rng2 = random_split R rng1 2 ! 0;
                            species_rng = random_split R rng1 2 ! 1;
                            species_rngs = random_split R species_rng num_graphs
                        in then_do (vmap_zip species_rngs target_species_probs) (\<lambda>pairs.
                             let target_species' =
                                   map (\<lambda>(key, p). random_choice_int R key NUM_ELEMENTS p) pairs
                             in then_do (MACE_target_position M self focus_node_embeddings
                                           target_species') (\<lambda>position_coeffs'.
                                  Inr (\<lparr>focus_logits = focus_logits',
                                         target_species_logits = target_species_logits',
                                         position_coeffs = position_coeffs',
                                         focus_indices = focus_indices',
                                         sampled_target_species = target_species'\<rparr>,
                                       hk_key')))))))))"

definition MACE_call ::
  "'k prng \<Rightarrow> MACE_modules \<Rightarrow> MACE \<Rightarrow> Fragment \<Rightarrow> 'k
     \<Rightarrow> py_error + (Predictions + EvaluationPredictions)" where
  "MACE_call R M self graphs hk_key =
     (if run_in_evaluation_mode self
      then then_do (get_evaluation_predictions R M self graphs hk_key)
             (\<lambda>(predictions, hk_key'). Inr (Inr predictions))
      else then_do (get_training_predictions M self graphs)
             (\<lambda>predictions. Inr (Inl predictions)))"

text \<open>
  \<open>seg_start counts g\<close> is the number of nodes in the graphs before graph \<open>g\<close>: the
  position at which the nodes of graph \<open>g\<close> start in the batch.
\<close>

definition seg_start :: "nat list \<Rightarrow> nat \<Rightarrow> nat" where
  "seg_start reps g = sum_list (take g reps)"


subsection \<open>The focus distribution as the specification words it\<close>

text \<open>
  The specification describes the focus distribution of one graph as a softmax over
  the logits of the graph's nodes and one extra, virtual stop logit, the stop mass being
  the share of that extra logit. \<open>spec_focus_distribution_with_stop\<close> follows those
  words, for comparison with \<open>focus_probs\<close>: it returns the node probabilities and the
  stop mass.
\<close>

definition spec_focus_distribution_with_stop :: "real list \<Rightarrow> real \<Rightarrow> real list \<times> real" where
  "spec_focus_distribution_with_stop node_logits stop_logit =
     (let m = Max (set (stop_logit # node_logits));
          z = sum_list (map (\<lambda>l. exp (l - m)) node_logits) + exp (stop_logit - m)
      in (map (\<lambda>l. exp (l - m) / z) node_logits, exp (stop_logit - m) / z))"

subsection \<open>A small batch for the examples\<close>

text \<open>
  Two graphs: three atoms with four edges around atom 0, and a single atom whose stop
  flag is set. The example modules put, for every node, the species number and the sum
  of the incoming relative vectors into one row \<open>[s, x, y, z]\<close> of irreps
  \<open>1x0e + 1x1o\<close>.
\<close>

definition vec_add :: "vec3 \<Rightarrow> vec3 \<Rightarrow> vec3" where
  "vec_add a b = (case (a, b) of ((a1, a2, a3), (b1, b2, b3)) \<Rightarrow> (a1 + b1, a2 + b2, a3 + b3))"

definition vec_list :: "vec3 \<Rightarrow> real list" where
  "vec_list a = (case a of (a1, a2, a3) \<Rightarrow> [a1, a2, a3])"

definition incoming :: "vec3 list \<Rightarrow> int list \<Rightarrow> int \<Rightarrow> vec3" where
  "incoming vectors receivers' i =
     foldr vec_add (map fst (filter (\<lambda>(v, r). r = i) (zip vectors receivers'))) (0, 0, 0)"

definition demo_modules :: MACE_modules where
  "demo_modules =
     \<lparr>mace_network = (\<lambda>vectors species' senders' receivers'.
        map (\<lambda>i. [real_of_int (species' ! i) # vec_list (incoming vectors receivers' (int i))])
          [0..<length species']),
      focus_linear = (\<lambda>row. hd row),
      species_perceptron = (\<lambda>scalars. replicate 5 (sum_list scalars)),
      species_embed = (\<lambda>s. [1, 1]),
      position_linear = (\<lambda>row. replicate 64 (take 4 row))\<rparr>"

definition demo_mace :: MACE where
  "demo_mace =
     \<lparr>output_irreps = [(1, (0, 1)), (1, (1, - 1))], r_max = 5, num_interactions = 1,
      hidden_irreps = [(1, (0, 1)), (1, (1, - 1))],
      readout_mlp_irreps = [(1, (0, 1))], avg_num_neighbors = 2, num_species = 5,
      max_ell = 1, position_coeffs_lmax = 1, run_in_evaluation_mode = False\<rparr>"

definition demo_fragment :: Fragment where
  "demo_fragment =
     \<lparr>nodes = \<lparr>positions = [(0, 0, 0), (1, 0, 0), (0, 1, 0), (5, 5, 5)],
               species = [1, 0, 0, 1]\<rparr>,
      senders = [0, 1, 0, 2], receivers = [1, 0, 2, 0],
      n_node = [3, 1], n_edge = [4, 0],
      globals = \<lparr>stop = [False, True], target_species = [0, 0],
                 target_positions = [(1, 0, 0), (0, 0, 0)]\<rparr>\<rparr>"

definition demo_embeddings :: "real list list IrrepsArray" where
  "demo_embeddings =
     \<lparr>ia_irreps = [(1, (0, 1)), (1, (1, - 1))],
      ia_array = [[1, - 1, - 1, 0], [0, 1, 0, 0], [0, 0, 1, 0], [1, 0, 0, 0]]\<rparr>"

definition single_atom :: Fragment where
  "single_atom =
     \<lparr>nodes = \<lparr>positions = [(0, 0, 0)], species = [1]\<rparr>,
      senders = [], receivers = [], n_node = [1], n_edge = [0],
      globals = \<lparr>stop = [False], target_species = [0], target_positions = [(1, 0, 0)]\<rparr>\<rparr>"

definition single_atom_embeddings :: "real list list IrrepsArray" where
  "single_atom_embeddings = \<lparr>ia_irreps = [(1, (0, 1)), (1, (1, - 1))], ia_array = [[0, 0, 0, 0]]\<rparr>"

text \<open>
  The example batch padded as jraph pads: the four atoms form the first graph, and a
  second graph without nodes fills the batch up.
\<close>

definition padded_fragment :: Fragment where
  "padded_fragment = demo_fragment\<lparr>n_node := [4, 0], n_edge := [4, 0]\<rparr>"

text \<open>The predictions of the training pass on the example batch.\<close>

definition demo_predictions :: Predictions where
  "demo_predictions =
     \<lparr>focus_logits = [1, 0, 0, 1],
      target_species_logits = [[1, 1, 1, 1, 1], [1, 1, 1, 1, 1]],
      position_coeffs =
        \<lparr>ia_irreps = [(1, (0, 1)), (1, (1, - 1))],
         ia_array = [replicate 64 [1, - 1, - 1, 0], replicate 64 [1, 0, 0, 0]]\<rparr>\<rparr>"

text \<open>
  For the evaluation pass the example modules score every node alike, which makes the
  focus probabilities rational: a third for each atom of the first graph.
\<close>

definition demo_sampling_modules :: MACE_modules where
  "demo_sampling_modules = demo_modules\<lparr>focus_linear := (\<lambda>row. 0)\<rparr>"

definition demo_evaluation_predictions :: EvaluationPredictions where
  "demo_evaluation_predictions =
     \<lparr>focus_logits = [0, 0, 0, 0],
      target_species_logits = [[1, 1, 1, 1, 1], [1, 1, 1, 1, 1]],
      position_coeffs =
        \<lparr>ia_irreps = [(1, (0, 1)), (1, (1, - 1))],
         ia_array = [replicate 64 [1, - 1, - 1, 0], replicate 64 [1, 0, 0, 0]]\<rparr>,
      focus_indices = [0, 3],
      sampled_target_species = [3, 2]\<rparr>"

subsection \<open>Linear maps of positions and block-wise maps of features\<close>

text \<open>
  A matrix acts on positions by \<open>mat_vec\<close>. On a row of an irreps array a
  representation acts block by block: every block of an entry of degree \<open>l\<close> is mapped
  by the map for degree \<open>l\<close>, which \<open>rotate_row\<close> takes as its first argument.
\<close>

type_synonym mat3 = "vec3 \<times> vec3 \<times> vec3"

definition dot :: "vec3 \<Rightarrow> vec3 \<Rightarrow> real" where
  "dot a b = (case (a, b) of ((a1, a2, a3), (b1, b2, b3)) \<Rightarrow> a1 * b1 + a2 * b2 + a3 * b3)"

definition mat_vec :: "mat3 \<Rightarrow> vec3 \<Rightarrow> vec3" where
  "mat_vec R v = (case R of (r1, r2, r3) \<Rightarrow> (dot r1 v, dot r2 v, dot r3 v))"

definition rotate_fragment :: "mat3 \<Rightarrow> Fragment \<Rightarrow> Fragment" where
  "rotate_fragment R graphs =
     graphs\<lparr>nodes := (nodes graphs)\<lparr>positions := map (mat_vec R) (positions (nodes graphs))\<rparr>\<rparr>"

fun rotate_blocks :: "(real list \<Rightarrow> real list) \<Rightarrow> nat \<Rightarrow> nat \<Rightarrow> real list \<Rightarrow> real list" where
  "rotate_blocks V 0 b xs = []"
| "rotate_blocks V (Suc k) b xs = V (take b xs) @ rotate_blocks V k b (drop b xs)"

fun rotate_row :: "(nat \<Rightarrow> real list \<Rightarrow> real list) \<Rightarrow> irreps \<Rightarrow> real list \<Rightarrow> real list" where
  "rotate_row W [] row = []"
| "rotate_row W ((mul, (l, p)) # irs) row =
     rotate_blocks (W l) (nat mul) (2 * l + 1) row
     @ rotate_row W irs (drop (nat mul * (2 * l + 1)) row)"

definition rotate_features ::
  "(nat \<Rightarrow> real list \<Rightarrow> real list) \<Rightarrow> real list list IrrepsArray \<Rightarrow> real list list IrrepsArray" where
  "rotate_features W x = x\<lparr>ia_array := map (rotate_row W (ia_irreps x)) (ia_array x)\<rparr>"

text \<open>
  For the example: the quarter turn about the third axis, and a representation that
  leaves scalars alone and turns the three numbers of a block of degree 1 as a vector.
\<close>

definition quarter_turn :: mat3 where
  "quarter_turn = ((0, - 1, 0), (1, 0, 0), (0, 0, 1))"

definition demo_wigner :: "mat3 \<Rightarrow> nat \<Rightarrow> real list \<Rightarrow> real list" where
  "demo_wigner R l v =
     (if l = 1 \<and> length v = 3 then vec_list (mat_vec R (v ! 0, v ! 1, v ! 2)) else v)"

section \<open>Properties\<close>

subsection \<open>Completing the grid resolution\<close>

text \<open>
  C10. \<open>_complete_lmax_and_res\<close> raises \<open>ValueError\<close> exactly when its three arguments
  are all \<open>None\<close>; called with \<open>lmax\<close> alone it returns
  \<open>(lmax, 2 * (lmax + 1), 2 * lmax + 1)\<close>; and in every triple it returns \<open>res_beta\<close> is
  even and \<open>lmax + 1 \<le> res_beta // 2\<close>.
\<close>

theorem complete_lmax_and_res_spec:
  "(complete_lmax_and_res lm rb ra = Inl ValueError
      \<longleftrightarrow> lm = None \<and> rb = None \<and> ra = None)
   \<and> complete_lmax_and_res (Some l) None None = Inr (l, 2 * (l + 1), 2 * l + 1)
   \<and> (\<forall>l' b' a'. complete_lmax_and_res lm rb ra = Inr (l', b', a')
        \<longrightarrow> b' mod 2 = 0 \<and> l' + 1 \<le> b' div 2)"
proof (intro conjI)
  show "complete_lmax_and_res lm rb ra = Inl ValueError
      \<longleftrightarrow> lm = None \<and> rb = None \<and> ra = None"
    by (auto simp: complete_lmax_and_res_def fill_res_beta_def fill_res_alpha_def
        fill_lmax_def Let_def split: option.splits sum.splits if_splits)
next
  show "complete_lmax_and_res (Some l) None None = Inr (l, 2 * (l + 1), 2 * l + 1)"
    by (simp add: complete_lmax_and_res_def fill_res_beta_def fill_res_alpha_def
        fill_lmax_def Let_def)
next
  show "\<forall>l' b' a'. complete_lmax_and_res lm rb ra = Inr (l', b', a')
        \<longrightarrow> b' mod 2 = 0 \<and> l' + 1 \<le> b' div 2"
    by (auto simp: complete_lmax_and_res_def Let_def split: option.splits sum.splits if_splits)
qed

theorem complete_lmax_and_res_spec_witness:
  "complete_lmax_and_res None (Some 6) None = Inr (2, 6, 5)
   \<and> (6::int) mod 2 = 0 \<and> (2::int) + 1 \<le> 6 div 2
   \<and> complete_lmax_and_res None None None = Inl ValueError
   \<and> complete_lmax_and_res (Some 3) None None = Inr (3, 8, 7)"
proof -
  have run: "complete_lmax_and_res None (Some 6) None = Inr (2, 6, 5)"
    by (simp add: complete_lmax_and_res_def fill_res_beta_def fill_res_alpha_def
        fill_lmax_def Let_def)
  from complete_lmax_and_res_spec [of None "Some 6" None 3] run
  have "(6::int) mod 2 = 0 \<and> (2::int) + 1 \<le> 6 div 2" by blast
  moreover from complete_lmax_and_res_spec [of None None None 3]
  have "complete_lmax_and_res None None None = Inl ValueError"
    and "complete_lmax_and_res (Some 3) None None = Inr (3, 8, 7)" by simp_all
  ultimately show ?thesis using run by simp
qed

subsection \<open>Rounding\<close>

lemma round_half_even_of_int [simp]: "round_half_even (of_int m) = m"
  by (simp add: round_half_even_def)

lemma round_half_even_cases:
  "round_half_even x = \<lfloor>x\<rfloor> \<and> x - of_int \<lfloor>x\<rfloor> \<le> 1 / 2
   \<or> round_half_even x = \<lfloor>x\<rfloor> + 1 \<and> 1 / 2 \<le> x - of_int \<lfloor>x\<rfloor>"
  unfolding round_half_even_def Let_def by auto

lemma round_half_even_error: "\<bar>of_int (round_half_even x) - x\<bar> \<le> 1 / 2"
  using round_half_even_cases [of x] by (auto simp: abs_if) linarith+

lemma round_half_even_le: "x \<le> of_int N \<Longrightarrow> round_half_even x \<le> N"
proof -
  assume a: "x \<le> of_int N"
  then have "\<lfloor>x\<rfloor> \<le> N" by (simp add: floor_le_iff)
  moreover have "x = of_int N" if "\<lfloor>x\<rfloor> = N" using that a by linarith
  ultimately show ?thesis
    using round_half_even_cases [of x] by (cases "\<lfloor>x\<rfloor> = N") auto
qed

lemma round_half_even_ge: "of_int N \<le> x \<Longrightarrow> N \<le> round_half_even x"
proof -
  assume "of_int N \<le> x"
  then have "N \<le> \<lfloor>x\<rfloor>" by (simp add: le_floor_iff)
  then show ?thesis using round_half_even_cases [of x] by auto
qed

lemma powi_eq_powr: "2 powi k = (2::real) powr (of_int k)"
  by (simp add: powr_real_of_int')

lemma powi_less_iff: "(2::real) powi a < 2 powi b \<longleftrightarrow> a < b"
  by (simp add: powi_eq_powr)

lemma powi_le_iff: "(2::real) powi a \<le> 2 powi b \<longleftrightarrow> a \<le> b"
  by (simp add: powi_eq_powr)

lemma floor_log2_bounds:
  assumes "x \<noteq> 0"
  shows "2 powi \<lfloor>log 2 \<bar>x\<bar>\<rfloor> \<le> \<bar>x\<bar>" and "\<bar>x\<bar> < 2 powi (\<lfloor>log 2 \<bar>x\<bar>\<rfloor> + 1)"
proof -
  have pos: "0 < \<bar>x\<bar>" using assms by simp
  have x: "2 powr (log 2 \<bar>x\<bar>) = \<bar>x\<bar>" using pos by simp
  have "2 powr (of_int \<lfloor>log 2 \<bar>x\<bar>\<rfloor>) \<le> 2 powr (log 2 \<bar>x\<bar>)"
    by (rule powr_mono) simp_all
  then show "2 powi \<lfloor>log 2 \<bar>x\<bar>\<rfloor> \<le> \<bar>x\<bar>"
    unfolding powi_eq_powr x .
  have "log 2 \<bar>x\<bar> < of_int (\<lfloor>log 2 \<bar>x\<bar>\<rfloor> + 1)" by linarith
  then have "2 powr (log 2 \<bar>x\<bar>) < 2 powr (of_int (\<lfloor>log 2 \<bar>x\<bar>\<rfloor> + 1))"
    by (rule powr_less_mono) simp
  then show "\<bar>x\<bar> < 2 powi (\<lfloor>log 2 \<bar>x\<bar>\<rfloor> + 1)"
    unfolding powi_eq_powr x .
qed

lemma floor_log2_eq:
  assumes "2 powi e \<le> \<bar>x\<bar>" and "\<bar>x\<bar> < 2 powi (e + 1)"
  shows "\<lfloor>log 2 \<bar>x\<bar>\<rfloor> = e"
proof -
  have "(0::real) < 2 powi e" by simp
  then have pos: "0 < \<bar>x\<bar>" using assms(1) by linarith
  have x: "2 powr (log 2 \<bar>x\<bar>) = \<bar>x\<bar>" using pos by simp
  have "2 powr (of_int e) \<le> 2 powr (log 2 \<bar>x\<bar>)"
    using assms(1) unfolding powi_eq_powr x .
  then have a: "of_int e \<le> log 2 \<bar>x\<bar>" by simp
  have "2 powr (log 2 \<bar>x\<bar>) < 2 powr (of_int (e + 1))"
    using assms(2) unfolding powi_eq_powr x .
  then have b: "log 2 \<bar>x\<bar> < of_int (e + 1)" by simp
  show ?thesis using a b by (simp add: floor_eq_iff)
qed

lemma rnd_0 [simp]: "rnd p emin 0 = 0"
  by (simp add: rnd_def)

lemma rnd_minus: "rnd p emin (- x) = - rnd p emin x"
proof -
  have "round_half_even (- y) = - round_half_even y" for y
  proof (cases "y = of_int \<lfloor>y\<rfloor>")
    case True
    then obtain m where "y = of_int m" ..
    then have "- y = of_int (- m)" by simp
    then show ?thesis unfolding \<open>y = of_int m\<close>
      by (simp only: round_half_even_of_int)
  next
    case False
    then have f: "\<lfloor>- y\<rfloor> = - \<lfloor>y\<rfloor> - 1"
      by (simp add: floor_eq_iff) linarith
    show ?thesis
      unfolding round_half_even_def Let_def f using False
      by (auto simp: field_simps)
  qed
  then show ?thesis by (simp add: rnd_def Let_def)
qed

lemma rnd_alt:
  "x \<noteq> 0 \<Longrightarrow> rnd p emin x
     = of_int (round_half_even (x / 2 powi ulp_exp p emin x)) * 2 powi ulp_exp p emin x"
  by (simp add: rnd_def ulp_exp_def Let_def)

lemma rnd_error_ulp:
  assumes "x \<noteq> 0"
  shows "\<bar>rnd p emin x - x\<bar> \<le> 2 powi ulp_exp p emin x / 2"
proof -
  let ?q = "ulp_exp p emin x"
  have pos: "(0::real) < 2 powi ?q" by simp
  have "rnd p emin x - x = (of_int (round_half_even (x / 2 powi ?q)) - x / 2 powi ?q) * 2 powi ?q"
    unfolding rnd_alt [OF assms] by (simp add: field_simps)
  then have "\<bar>rnd p emin x - x\<bar>
      = \<bar>of_int (round_half_even (x / 2 powi ?q)) - x / 2 powi ?q\<bar> * 2 powi ?q"
    by (simp add: abs_mult)
  also have "\<dots> \<le> 1 / 2 * 2 powi ?q"
    by (rule mult_right_mono [OF round_half_even_error]) simp
  finally show ?thesis by simp
qed

lemma rnd_error:
  "\<bar>rnd p emin x - x\<bar> \<le> 2 powi (- int p) * \<bar>x\<bar> + 2 powi (emin - int p)"
proof (cases "x = 0")
  case True
  then show ?thesis by simp
next
  case False
  let ?l = "\<lfloor>log 2 \<bar>x\<bar>\<rfloor>"
  have half: "2 powi (k - int p + 1) / 2 = (2::real) powi (k - int p)" for k
    by (simp add: power_int_add)
  show ?thesis
  proof (cases "emin \<le> ?l")
    case True
    then have q: "ulp_exp p emin x = ?l - int p + 1" by (simp add: ulp_exp_def)
    have "2 powi (?l - int p) = (2::real) powi (- int p) * 2 powi ?l"
      by (simp add: power_int_diff power_int_minus field_simps)
    also have "\<dots> \<le> 2 powi (- int p) * \<bar>x\<bar>"
      by (rule mult_left_mono [OF floor_log2_bounds(1) [OF False]]) simp
    finally have "2 powi (?l - int p) \<le> 2 powi (- int p) * \<bar>x\<bar>" .
    moreover have "(0::real) \<le> 2 powi (emin - int p)" by simp
    ultimately show ?thesis
      using rnd_error_ulp [OF False, of p emin] unfolding q half by linarith
  next
    case False
    then have q: "ulp_exp p emin x = emin - int p + 1" by (simp add: ulp_exp_def)
    have "(0::real) \<le> 2 powi (- int p) * \<bar>x\<bar>" by simp
    then show ?thesis
      using rnd_error_ulp [OF \<open>x \<noteq> 0\<close>, of p emin] unfolding q half by linarith
  qed
qed

lemma rnd_grid:
  assumes "\<bar>m\<bar> < 2 ^ p" and "emin - int p + 1 \<le> k"
  shows "rnd p emin (of_int m * 2 powi k) = of_int m * 2 powi k"
proof (cases "m = 0")
  case True
  then show ?thesis by simp
next
  case False
  let ?x = "of_int m * (2::real) powi k"
  let ?q = "ulp_exp p emin ?x"
  have x0: "?x \<noteq> 0" using False by simp
  have "\<bar>?x\<bar> = of_int \<bar>m\<bar> * 2 powi k" by (simp add: abs_mult)
  also have "\<dots> < of_int (2 ^ p) * 2 powi k"
  proof (rule mult_strict_right_mono)
    show "(of_int \<bar>m\<bar> :: real) < of_int (2 ^ p)"
      using assms(1) by (simp only: of_int_less_iff)
  qed simp
  also have "\<dots> = 2 powi (int p + k)" by (simp add: power_int_add)
  finally have "\<bar>?x\<bar> < 2 powi (int p + k)" .
  with floor_log2_bounds(1) [OF x0] have "(2::real) powi \<lfloor>log 2 \<bar>?x\<bar>\<rfloor> < 2 powi (int p + k)"
    by linarith
  then have "\<lfloor>log 2 \<bar>?x\<bar>\<rfloor> < int p + k"
    by (simp only: powi_less_iff)
  then have qk: "?q \<le> k" using assms(2) by (simp add: ulp_exp_def)
  then obtain j where j: "k = ?q + int j" by (metis zle_iff_zadd)
  have "?x / 2 powi ?q = of_int m * 2 powi (k - ?q)"
    by (simp add: power_int_diff)
  also have "\<dots> = of_int (m * 2 ^ j)"
  proof -
    have "k - ?q = int j" using j by simp
    then show ?thesis by (simp only: power_int_of_nat) simp
  qed
  finally have int: "?x / 2 powi ?q = of_int (m * 2 ^ j)" .
  have "rnd p emin ?x = of_int (m * 2 ^ j) * 2 powi ?q"
    unfolding rnd_alt [OF x0] int round_half_even_of_int ..
  also have "\<dots> = ?x / 2 powi ?q * 2 powi ?q" unfolding int ..
  also have "\<dots> = ?x" by simp
  finally show ?thesis .
qed

lemma rnd_at_exp:
  assumes "2 powi e \<le> \<bar>x\<bar>" and "\<bar>x\<bar> < 2 powi (e + 1)" and "emin \<le> e"
  shows "rnd p emin x
           = of_int (round_half_even (x / 2 powi (e - int p + 1))) * 2 powi (e - int p + 1)"
proof -
  have "(0::real) < 2 powi e" by simp
  then have "0 < \<bar>x\<bar>" using assms(1) by linarith
  then have x0: "x \<noteq> 0" by simp
  have "ulp_exp p emin x = e - int p + 1"
    using floor_log2_eq [OF assms(1,2)] assms(3) by (simp add: ulp_exp_def)
  then show ?thesis using rnd_alt [OF x0, of p emin] by simp
qed

lemma rnd_idem:
  assumes "0 < p"
  shows "rnd p emin (rnd p emin x) = rnd p emin x"
proof (cases "x = 0")
  case True
  then show ?thesis by simp
next
  case False
  let ?q = "ulp_exp p emin x"
  let ?l = "max \<lfloor>log 2 \<bar>x\<bar>\<rfloor> emin"
  let ?m = "round_half_even (x / 2 powi ?q)"
  have q: "?q = ?l - int p + 1" by (simp add: ulp_exp_def)
  have qmin: "emin - int p + 1 \<le> ?q" by (simp add: ulp_exp_def)
  have "\<bar>x\<bar> < 2 powi (\<lfloor>log 2 \<bar>x\<bar>\<rfloor> + 1)" by (rule floor_log2_bounds(2) [OF False])
  also have "\<dots> \<le> 2 powi (?l + 1)" by (simp only: powi_le_iff)
  finally have "\<bar>x\<bar> < 2 powi (?l + 1)" .
  then have "\<bar>x\<bar> / 2 powi ?q < 2 powi (?l + 1) / 2 powi ?q"
    by (simp add: divide_strict_right_mono)
  also have "2 powi (?l + 1) / 2 powi ?q = (2::real) powi int p"
    unfolding q by (simp add: power_int_diff [symmetric])
  finally have "\<bar>x / 2 powi ?q\<bar> < 2 powi int p" by simp
  then have "\<bar>x / 2 powi ?q\<bar> < 2 ^ p" by (simp only: power_int_of_nat)
  then have "x / 2 powi ?q < 2 ^ p" "- (2 ^ p) < x / 2 powi ?q"
    by (simp_all only: abs_less_iff minus_less_iff)
  then have b: "x / 2 powi ?q \<le> of_int (2 ^ p)" "of_int (- (2 ^ p)) \<le> x / 2 powi ?q"
    by simp_all
  have m: "?m \<le> 2 ^ p" "- (2 ^ p) \<le> ?m"
    using round_half_even_le [OF b(1)] round_half_even_ge [OF b(2)] by simp_all
  have r: "rnd p emin x = of_int ?m * 2 powi ?q" by (rule rnd_alt [OF False])
  consider "\<bar>?m\<bar> < 2 ^ p" | "?m = 2 ^ p" | "?m = - (2 ^ p)" using m by linarith
  then show ?thesis
  proof cases
    case 1
    show ?thesis unfolding r by (rule rnd_grid [OF 1 qmin])
  next
    case 2
    have one: "\<bar>1::int\<bar> < 2 ^ p" using assms by simp
    have "rnd p emin x = of_int 1 * 2 powi (int p + ?q)"
      unfolding r 2 by (simp add: power_int_add)
    moreover have "emin - int p + 1 \<le> int p + ?q" using qmin by simp
    ultimately show ?thesis using rnd_grid [OF one, of emin "int p + ?q"] by simp
  next
    case 3
    have one: "\<bar>- 1::int\<bar> < 2 ^ p" using assms by simp
    have "rnd p emin x = of_int (- 1) * 2 powi (int p + ?q)"
      unfolding r 3 by (simp add: power_int_add)
    moreover have "emin - int p + 1 \<le> int p + ?q" using qmin by simp
    ultimately show ?thesis using rnd_grid [OF one, of emin "int p + ?q"] by simp
  qed
qed

subsection \<open>Single precision\<close>

lemma rnd32_error: "\<bar>rnd32 x - x\<bar> \<le> \<bar>x\<bar> / 16777216 + 2 powi (- 150)"
  using rnd_error [of 24 "- 126" x] by (simp add: rnd32_def power_int_minus)

lemma rnd32_grid:
  "\<bar>m\<bar> < 16777216 \<Longrightarrow> - 149 \<le> k \<Longrightarrow> rnd32 (of_int m * 2 powi k) = of_int m * 2 powi k"
  unfolding rnd32_def by (rule rnd_grid) simp_all

lemma rnd32_of_nat: "i < 16777216 \<Longrightarrow> rnd32 (real i) = real i"
  using rnd32_grid [of "int i" 0] by simp

lemma rnd32_0 [simp]: "rnd32 0 = 0"
  by (simp add: rnd32_def)

lemma rnd32_1 [simp]: "rnd32 1 = 1"
  using rnd32_grid [of 1 0] by simp

lemma rnd32_idem: "rnd32 (rnd32 x) = rnd32 x"
  unfolding rnd32_def by (rule rnd_idem) simp

lemma min_step_small: "(2::real) powi (- 150) \<le> 1 / 16777216" "(0::real) < 2 powi (- 150)"
proof -
  have "(2::real) powi (- 150) \<le> 2 powi (- 24)" by (simp only: powi_le_iff)
  then show "(2::real) powi (- 150) \<le> 1 / 16777216" by (simp add: power_int_minus)
  show "(0::real) < 2 powi (- 150)" by simp
qed

lemma fl32_Finite: "\<bar>rnd32 x\<bar> < 2 ^ 128 \<Longrightarrow> fl32 x = Finite (rnd32 x)"
  by (auto simp: fl32_def Let_def)

lemma fl32_small: 
  assumes "\<bar>x\<bar> \<le> 2 ^ 127"
  shows "fl32 x = Finite (rnd32 x)"
proof (rule fl32_Finite)
  have "\<bar>rnd32 x\<bar> \<le> \<bar>x\<bar> + \<bar>x\<bar> / 16777216 + 1 / 16777216"
    using rnd32_error [of x] min_step_small(1) by linarith
  also have "\<dots> \<le> 2 ^ 127 + 2 ^ 127 / 16777216 + 1 / 16777216"
    using assms by simp
  also have "\<dots> < 2 ^ 128" by simp
  finally show "\<bar>rnd32 x\<bar> < 2 ^ 128" .
qed

lemma fl32_eq_Finite: "fl32 x = Finite a \<Longrightarrow> a = rnd32 x \<and> \<bar>a\<bar> < 2 ^ 128"
  by (auto simp: fl32_def Let_def split: if_splits)

lemma fl32_fixed:
  assumes "fl32 x = Finite a"
  shows "fl32 a = Finite a"
proof -
  have a: "a = rnd32 x" "\<bar>a\<bar> < 2 ^ 128" using fl32_eq_Finite [OF assms] by blast+
  have "rnd32 a = a" unfolding a(1) by (rule rnd32_idem)
  then show ?thesis using fl32_Finite [of a] a(2) by simp
qed

lemma fl32_0 [simp]: "fl32 0 = Finite 0"
  by (simp add: fl32_def)

lemma fl32_1 [simp]: "fl32 1 = Finite 1"
  by (simp add: fl32_def)

text \<open>The error of one entry of \<open>linspace\<close>.\<close>

lemma lerp_error:
  fixes a b x M :: real
  assumes x: "0 \<le> x" "x \<le> 1" and a: "\<bar>a\<bar> \<le> M" and b: "\<bar>b\<bar> \<le> M"
  defines "s \<equiv> rnd32 x"
  defines "t \<equiv> rnd32 (1 - s)"
  defines "A \<equiv> rnd32 (a * t)"
  defines "B \<equiv> rnd32 (b * s)"
  shows "\<bar>1 - s\<bar> \<le> 2" and "\<bar>a * t\<bar> \<le> 2 * M" and "\<bar>b * s\<bar> \<le> 2 * M"
    and "\<bar>A + B\<bar> \<le> 5 * M + 2 * 2 powi (- 150)"
    and "\<bar>rnd32 (A + B) - (a + (b - a) * x)\<bar> \<le> M / 1048576 + 4 * 2 powi (- 150)"
proof -
  define h :: real where "h = 2 powi (- 150)"
  define u :: real where "u = 1 / 16777216"
  have h: "0 < h" "h \<le> u" using min_step_small by (simp_all add: h_def u_def)
  have e: "\<bar>rnd32 y - y\<bar> \<le> \<bar>y\<bar> * u + h" for y
    using rnd32_error [of y] by (simp add: h_def u_def)
  have M0: "0 \<le> M" using a by linarith
  have s1: "\<bar>s - x\<bar> \<le> 2 * u" using e [of x] x h unfolding s_def u_def by linarith
  have s2: "\<bar>s\<bar> \<le> 2" using s1 x unfolding u_def by linarith
  show w2: "\<bar>1 - s\<bar> \<le> 2" using s1 x unfolding u_def by linarith
  have "\<bar>1 - s\<bar> * u \<le> 2 * u"
    by (rule mult_right_mono [OF w2]) (simp add: u_def)
  then have "\<bar>t - (1 - s)\<bar> \<le> 3 * u"
    using e [of "1 - s"] h unfolding t_def by linarith
  then have t1: "\<bar>t - (1 - x)\<bar> \<le> 5 * u"
    using s1 by linarith
  have t2: "\<bar>t\<bar> \<le> 2" using t1 x unfolding u_def by linarith
  have "\<bar>a * t\<bar> = \<bar>a\<bar> * \<bar>t\<bar>" by (rule abs_mult)
  also have "\<dots> \<le> M * 2" by (rule mult_mono [OF a t2 M0]) simp
  finally show P: "\<bar>a * t\<bar> \<le> 2 * M" by simp
  have "\<bar>b * s\<bar> = \<bar>b\<bar> * \<bar>s\<bar>" by (rule abs_mult)
  also have "\<dots> \<le> M * 2" by (rule mult_mono [OF b s2 M0]) simp
  finally show Q: "\<bar>b * s\<bar> \<le> 2 * M" by simp
  have "\<bar>a * t - a * (1 - x)\<bar> = \<bar>a\<bar> * \<bar>t - (1 - x)\<bar>"
    by (simp add: abs_mult [symmetric] right_diff_distrib)
  also have "\<dots> \<le> M * (5 * u)" by (rule mult_mono [OF a t1 M0]) simp
  finally have P1: "\<bar>a * t - a * (1 - x)\<bar> \<le> 5 * (M * u)" by simp
  have "\<bar>b * s - b * x\<bar> = \<bar>b\<bar> * \<bar>s - x\<bar>"
    by (simp add: abs_mult [symmetric] right_diff_distrib)
  also have "\<dots> \<le> M * (2 * u)" by (rule mult_mono [OF b s1 M0]) simp
  finally have Q1: "\<bar>b * s - b * x\<bar> \<le> 2 * (M * u)" by simp
  have A1: "\<bar>A - a * t\<bar> \<le> 2 * (M * u) + h"
  proof -
    have "\<bar>a * t\<bar> * u \<le> 2 * M * u"
      by (rule mult_right_mono [OF P]) (simp add: u_def)
    then show ?thesis using e [of "a * t"] unfolding A_def by linarith
  qed
  have B1: "\<bar>B - b * s\<bar> \<le> 2 * (M * u) + h"
  proof -
    have "\<bar>b * s\<bar> * u \<le> 2 * M * u"
      by (rule mult_right_mono [OF Q]) (simp add: u_def)
    then show ?thesis using e [of "b * s"] unfolding B_def by linarith
  qed
  have Mu: "M * u \<le> M / 8" "0 \<le> M * u" using M0 by (simp_all add: u_def)
  show S: "\<bar>A + B\<bar> \<le> 5 * M + 2 * 2 powi (- 150)"
    using A1 B1 P Q Mu unfolding h_def [symmetric] by linarith
  have R1: "\<bar>rnd32 (A + B) - (A + B)\<bar> \<le> 5 * (M * u) + 2 * h"
  proof -
    have "\<bar>A + B\<bar> * u \<le> (5 * M + 2 * h) * u"
      by (rule mult_right_mono [OF S [unfolded h_def [symmetric]]]) (simp add: u_def)
    moreover have "h * u \<le> h / 2" using h(1) by (simp add: u_def)
    ultimately show ?thesis using e [of "A + B"] by (simp add: algebra_simps) 
  qed
  have "a + (b - a) * x = a * (1 - x) + b * x" by (simp add: algebra_simps)
  then have "\<bar>rnd32 (A + B) - (a + (b - a) * x)\<bar> \<le> 16 * (M * u) + 4 * h"
    using R1 A1 B1 P1 Q1 by linarith
  moreover have "16 * (M * u) = M / 1048576" by (simp add: u_def)
  ultimately show "\<bar>rnd32 (A + B) - (a + (b - a) * x)\<bar> \<le> M / 1048576 + 4 * 2 powi (- 150)"
    unfolding h_def by simp
qed

subsection \<open>Radii\<close>

lemma sorted_wrt_map_upt:
  assumes "\<And>i j. i < j \<Longrightarrow> j < n \<Longrightarrow> f i < (f j :: real)"
  shows "sorted_wrt (<) (map f [0..<n])"
  using assms by (simp add: sorted_wrt_iff_nth_less)

lemma fl32_positive:
  assumes "1 \<le> y"
  shows "fl32 y = PInf \<or> (\<exists>r. fl32 y = Finite r \<and> r \<noteq> 0)"
proof -
  have "\<bar>rnd32 y - y\<bar> \<le> y / 16777216 + 1 / 16777216"
    using rnd32_error [of y] min_step_small(1) assms by simp
  then have "0 < rnd32 y" using assms by linarith
  then show ?thesis by (auto simp: fl32_def Let_def)
qed

lemma linspace_first:
  assumes "1 \<le> y" and a: "fl32 lo = Finite a" and b: "fl32 hi = Finite b"
  shows "(let step = f32_div (fl32 (real (0::nat))) (fl32 y)
          in f32_add (f32_mul (Finite a) (f32_sub (Finite 1) step)) (f32_mul (Finite b) step))
         = Finite a"
proof -
  have "f32_div (Finite 0) (fl32 y) = Finite 0"
    using fl32_positive [OF assms(1)] by auto
  then show ?thesis
    using fl32_fixed [OF a] by (simp add: f32_sub_def)
qed

lemma linspace_entry:
  fixes a b :: real and n i :: nat
  assumes n: "2 \<le> n" "n \<le> 16777216" and i: "i < n - 1"
    and a: "\<bar>a\<bar> \<le> 2 ^ 124" and b: "\<bar>b\<bar> \<le> 2 ^ 124"
  defines "x \<equiv> real i / real (n - 1)"
  defines "r \<equiv> rnd32 (rnd32 (a * rnd32 (1 - rnd32 x)) + rnd32 (b * rnd32 x))"
  shows "(let step = f32_div (fl32 (real i)) (fl32 (real (n - 1)))
          in f32_add (f32_mul (Finite a) (f32_sub (Finite 1) step)) (f32_mul (Finite b) step))
         = Finite r"
    and "\<bar>r - (a + (b - a) * x)\<bar> \<le> max \<bar>a\<bar> \<bar>b\<bar> / 1048576 + 4 * 2 powi (- 150)"
proof -
  define M where "M = max \<bar>a\<bar> \<bar>b\<bar>"
  have M: "\<bar>a\<bar> \<le> M" "\<bar>b\<bar> \<le> M" "M \<le> 2 ^ 124" using a b by (simp_all add: M_def)
  have d0: "real (n - 1) \<noteq> 0" using n by simp
  have x: "0 \<le> x" "x \<le> 1" using i by (simp_all add: x_def)
  note le = lerp_error [OF x M(1,2)]
  have fi: "fl32 (real i) = Finite (real i)"
    using fl32_small [of "real i"] rnd32_of_nat [of i] i n by simp
  have fd: "fl32 (real (n - 1)) = Finite (real (n - 1))"
    using fl32_small [of "real (n - 1)"] rnd32_of_nat [of "n - 1"] n by simp
  have s: "fl32 x = Finite (rnd32 x)"
    by (rule fl32_small) (use x in simp)
  have t: "fl32 (1 - rnd32 x) = Finite (rnd32 (1 - rnd32 x))"
    by (rule fl32_small) (use le(1) in simp)
  have big: "2 * M \<le> 2 ^ 127" "5 * M + 2 * 2 powi (- 150) \<le> 2 ^ 127"
    using M(3) min_step_small(1) by simp_all
  have A: "fl32 (a * rnd32 (1 - rnd32 x)) = Finite (rnd32 (a * rnd32 (1 - rnd32 x)))"
    by (rule fl32_small) (use le(2) big(1) in linarith)
  have B: "fl32 (b * rnd32 x) = Finite (rnd32 (b * rnd32 x))"
    by (rule fl32_small) (use le(3) big(1) in linarith)
  have S: "fl32 (rnd32 (a * rnd32 (1 - rnd32 x)) + rnd32 (b * rnd32 x)) = Finite r"
    unfolding r_def by (rule fl32_small) (use le(4) big(2) in linarith)
  show "(let step = f32_div (fl32 (real i)) (fl32 (real (n - 1)))
          in f32_add (f32_mul (Finite a) (f32_sub (Finite 1) step)) (f32_mul (Finite b) step))
         = Finite r"
    unfolding fi fd Let_def f32_div.simps if_P [OF d0] x_def [symmetric] s f32_sub_def
      f32_neg.simps f32_add.simps f32_mul.simps
    using t A B S by simp
  show "\<bar>r - (a + (b - a) * x)\<bar> \<le> max \<bar>a\<bar> \<bar>b\<bar> / 1048576 + 4 * 2 powi (- 150)"
    using le(5) unfolding r_def M_def .
qed

lemma linspace_float32:
  assumes num: "2 \<le> num" and a: "fl32 lo = Finite a" and b: "fl32 hi = Finite b"
  shows "\<exists>rs. linspace lo hi num = Inr rs \<and> length rs = nat num
           \<and> hd rs = Finite a \<and> last rs = Finite b
           \<and> (num \<le> 16777216 \<and> \<bar>a\<bar> \<le> 2 ^ 124 \<and> \<bar>b\<bar> \<le> 2 ^ 124
                \<and> max \<bar>a\<bar> \<bar>b\<bar> / 524288 + 2 powi (- 147) < (b - a) / real_of_int (num - 1)
              \<longrightarrow> (\<exists>xs. rs = map Finite xs \<and> sorted_wrt (<) xs))"
proof -
  define n where "n = nat num"
  define d where "d = real (n - 1)"
  define g where "g = (\<lambda>i. let step = f32_div (fl32 (real i)) (fl32 d)
      in f32_add (f32_mul (Finite a) (f32_sub (Finite 1) step)) (f32_mul (Finite b) step))"
  define rs where "rs = map g [0..<n - 1] @ [Finite b]"
  have n2: "2 \<le> n" using num by (simp add: n_def)
  have d1: "1 \<le> d" using n2 by (simp add: d_def)
  have dnum: "real_of_int (num - 1) = d" using num by (simp add: d_def n_def)
  have run: "linspace lo hi num = Inr rs"
    using num n2 by (simp add: linspace_def Let_def rs_def g_def d_def n_def a b)
  have len: "length rs = nat num" using n2 by (simp add: rs_def n_def)
  have g0: "g 0 = Finite a" unfolding g_def by (rule linspace_first [OF d1 a b])
  have "[0..<n - 1] \<noteq> []" using n2 by simp
  then have "hd rs = g 0" by (simp add: rs_def hd_map hd_append)
  then have h: "hd rs = Finite a" using g0 by simp
  have l: "last rs = Finite b" by (simp add: rs_def)
  have srt: "\<exists>xs. rs = map Finite xs \<and> sorted_wrt (<) xs"
    if c: "num \<le> 16777216" "\<bar>a\<bar> \<le> 2 ^ 124" "\<bar>b\<bar> \<le> 2 ^ 124"
      "max \<bar>a\<bar> \<bar>b\<bar> / 524288 + 2 powi (- 147) < (b - a) / real_of_int (num - 1)"
  proof -
    define E where "E = max \<bar>a\<bar> \<bar>b\<bar> / 1048576 + 4 * 2 powi (- 150)"
    define r where "r = (\<lambda>i. rnd32 (rnd32 (a * rnd32 (1 - rnd32 (real i / d)))
        + rnd32 (b * rnd32 (real i / d))))"
    define X where "X = (\<lambda>i. a + (b - a) * (real i / d))"
    have n24: "n \<le> 16777216" using c(1) by (simp add: n_def)
    have gi: "g i = Finite (r i)" and ri: "\<bar>r i - X i\<bar> \<le> E" if "i < n - 1" for i
      using linspace_entry [OF n2 n24 that c(2,3)]
      unfolding g_def r_def X_def E_def d_def by blast+
    have "(8::real) * 2 powi (- 150) = 2 powi (- 147)"
      by (simp add: power_int_minus)
    then have "2 * E = max \<bar>a\<bar> \<bar>b\<bar> / 524288 + 2 powi (- 147)"
      by (simp add: E_def)
    then have gap: "2 * E < (b - a) / d" using c(4) unfolding dnum by simp
    have E0: "0 \<le> E" by (simp add: E_def)
    have dpos: "0 < d" using d1 by simp
    have ba: "0 < b - a"
    proof -
      have "0 < (b - a) / d" using gap E0 by linarith
      then show ?thesis using dpos by (simp add: zero_less_divide_iff)
    qed
    have Xstep: "X i + (b - a) / d \<le> X j" if "i < j" for i j
    proof -
      have "real i + 1 \<le> real j" using that by simp
      then have "(real i + 1) / d \<le> real j / d" using dpos by (simp add: divide_right_mono)
      then have "(b - a) * ((real i + 1) / d) \<le> (b - a) * (real j / d)"
        by (rule mult_left_mono) (use ba in simp)
      moreover have "(b - a) * ((real i + 1) / d) = (b - a) * (real i / d) + (b - a) / d"
        by (simp add: add_divide_distrib distrib_left)
      ultimately show ?thesis by (simp add: X_def)
    qed
    have Xlast: "X (n - 1) = b" using dpos by (simp add: X_def d_def)
    have mono: "r i < r j" if "i < j" "j < n - 1" for i j
      using ri [of i] ri [of j] Xstep [OF that(1)] gap that by linarith
    have below: "r i < b" if "i < n - 1" for i
      using ri [OF that] Xstep [OF that] Xlast gap E0 by linarith
    have "rs = map Finite (map r [0..<n - 1] @ [b])"
      using gi by (simp add: rs_def)
    moreover have "sorted_wrt (<) (map r [0..<n - 1] @ [b])"
      using mono below by (auto simp: sorted_wrt_append intro: sorted_wrt_map_upt)
    ultimately show ?thesis by blast
  qed
  show ?thesis using run len h l srt by blast
qed

lemma fl32_grid:
  assumes "\<bar>m\<bar> < 16777216" and "- 149 \<le> k" and "k \<le> 103"
  shows "fl32 (of_int m * 2 powi k) = Finite (of_int m * 2 powi k)"
proof -
  have "\<bar>of_int m * (2::real) powi k\<bar> = of_int \<bar>m\<bar> * 2 powi k" by (simp add: abs_mult)
  also have "\<dots> \<le> 16777216 * 2 powi 103"
  proof (rule mult_mono)
    show "(of_int \<bar>m\<bar> :: real) \<le> 16777216" using assms(1) by linarith
    show "(2::real) powi k \<le> 2 powi 103" using assms(3) by (simp only: powi_le_iff)
  qed simp_all
  also have "\<dots> = 2 ^ 127" by simp
  finally have "fl32 (of_int m * 2 powi k) = Finite (rnd32 (of_int m * 2 powi k))"
    by (rule fl32_small)
  then show ?thesis using rnd32_grid [OF assms(1,2)] by simp
qed

lemma fl32_int: "\<bar>m\<bar> < 16777216 \<Longrightarrow> fl32 (of_int m) = Finite (of_int m)"
  using fl32_grid [of m 0] by simp

lemma fl32_values:
  "fl32 2 = Finite 2" "fl32 (1 / 2) = Finite (1 / 2)" "fl32 (3 / 2) = Finite (3 / 2)"
  "fl32 16777216 = Finite 16777216" "fl32 16777218 = Finite 16777218"
  "fl32 8388608 = Finite 8388608" "fl32 8388609 = Finite 8388609"
  using fl32_int [of 2] fl32_grid [of 1 "- 1"] fl32_grid [of 3 "- 1"]
    fl32_grid [of 1 24] fl32_grid [of 8388609 1] fl32_int [of 8388608] fl32_int [of 8388609]
  by (simp_all add: power_int_minus)

lemma fl32_16777217: "fl32 16777217 = Finite 16777216"
proof -
  have "rnd32 16777217 = 16777216"
    unfolding rnd32_def
    by (subst rnd_at_exp [of 24]) (simp_all add: round_half_even_def)
  then show ?thesis by (simp add: fl32_def)
qed

lemma linspace_demo: "linspace 1 2 3 = Inr [Finite 1, Finite (3 / 2), Finite 2]"
  by (simp add: linspace_def Let_def upt_rec f32_sub_def fl32_values numeral_eq_Suc)

lemma linspace_wide:
  "linspace 16777216 16777218 3 = Inr [Finite 16777216, Finite 16777216, Finite 16777218]"
  by (simp add: linspace_def Let_def upt_rec f32_sub_def fl32_values fl32_16777217)

lemma rnd64_grid:
  "\<bar>m\<bar> < 9007199254740992 \<Longrightarrow> - 1074 \<le> k \<Longrightarrow> rnd64 (of_int m * 2 powi k) = of_int m * 2 powi k"
  unfolding rnd64_def by (rule rnd_grid) simp_all

lemma rnd64_three_quarters: "rnd64 0.75 = 3 / 4"
  using rnd64_grid [of 3 "- 2"] by (simp add: power_int_minus)

lemma rnd64_stop: "rnd64 2.03 = 4571153621781053 / 2 ^ 51"
  unfolding rnd64_def
  by (subst rnd_at_exp [of 1]) (simp_all add: round_half_even_def power_int_minus)

lemma rnd64_step: "rnd64 0.02 = 5764607523034235 / 2 ^ 58"
  unfolding rnd64_def
  by (subst rnd_at_exp [of "- 6"]) (simp_all add: round_half_even_def power_int_minus)

lemma rnd64_span: "rnd64 (4571153621781053 / 2 ^ 51 - 3 / 4) = 2882303761517117 / 2 ^ 51"
  using rnd64_grid [of 2882303761517117 "- 51"] by (simp add: power_int_minus)

lemma rnd64_count:
  "rnd64 (2882303761517117 / 2 ^ 51 / (5764607523034235 / 2 ^ 58)) = 9007199254740990 / 2 ^ 47"
  unfolding rnd64_def
  by (subst rnd_at_exp [of 5]) (simp_all add: round_half_even_def power_int_minus)

lemma rnd64_next: "rnd64 (3 / 4 + 5764607523034235 / 2 ^ 58) = 6935543426150564 / 2 ^ 53"
  unfolding rnd64_def
  by (subst rnd_at_exp [of "- 1"]) (simp_all add: round_half_even_def power_int_minus)

lemma fl32_first: "fl32 (3 / 4) = Finite (3 / 4)"
  using fl32_grid [of 3 "- 2"] by (simp add: power_int_minus)

lemma fl32_second: "fl32 (6935543426150564 / 2 ^ 53) = Finite (12918456 / 2 ^ 24)"
proof -
  have "rnd32 (6935543426150564 / 2 ^ 53) = 12918456 / 2 ^ 24"
    unfolding rnd32_def
    by (subst rnd_at_exp [of "- 1"]) (simp_all add: round_half_even_def power_int_minus)
  then show ?thesis by (simp add: fl32_def)
qed

lemma fl32_delta: "fl32 (12918456 / 2 ^ 24 + - (3 / 4)) = Finite (335544 / 2 ^ 24)"
  using fl32_grid [of 335544 "- 24"] by (simp add: power_int_minus)

lemma RADII_entry:
  assumes "i < 64"
  shows "f32_add (Finite (3 / 4)) (f32_mul (fl32 (real i)) (Finite (335544 / 2 ^ 24)))
           = Finite ((1572864 + 41943 * real i) / 2 ^ 21)"
proof -
  have i: "fl32 (real i) = Finite (real i)"
    using fl32_int [of "int i"] assms by simp
  have g1: "fl32 (of_int (41943 * int i) * 2 powi (- 21))
      = Finite (of_int (41943 * int i) * 2 powi (- 21))"
    by (rule fl32_grid) (use assms in simp_all)
  have e1: "of_int (41943 * int i) * 2 powi (- 21) = real i * (335544 / 2 ^ 24)"
    by (simp add: power_int_minus)
  have m: "fl32 (real i * (335544 / 2 ^ 24)) = Finite (real i * (335544 / 2 ^ 24))"
    using g1 unfolding e1 .
  have g2: "fl32 (of_int (1572864 + 41943 * int i) * 2 powi (- 21))
      = Finite (of_int (1572864 + 41943 * int i) * 2 powi (- 21))"
    by (rule fl32_grid) (use assms in simp_all)
  have e2: "of_int (1572864 + 41943 * int i) * 2 powi (- 21)
      = 3 / 4 + real i * (335544 / 2 ^ 24)"
    by (simp add: power_int_minus field_simps)
  have e3: "(1572864 + 41943 * real i) / 2 ^ 21 = 3 / 4 + real i * (335544 / 2 ^ 24)"
    by (simp add: field_simps)
  have "fl32 (3 / 4 + real i * (335544 / 2 ^ 24))
      = Finite ((1572864 + 41943 * real i) / 2 ^ 21)"
    using g2 unfolding e2 e3 .
  then show ?thesis unfolding i f32_mul.simps m f32_add.simps .
qed

lemma RADII_eq: "RADII = map (\<lambda>i. Finite ((1572864 + 41943 * real i) / 2 ^ 21)) [0..<64]"
proof -
  have count: "nat \<lceil>9007199254740990 / 2 ^ 47 :: real\<rceil> = 64"
    by (simp add: ceiling_eq_iff)
  have "RADII = take 64 ([Finite (3 / 4), Finite (12918456 / 2 ^ 24)]
      @ map (\<lambda>i. f32_add (Finite (3 / 4)) (f32_mul (fl32 (real i)) (Finite (335544 / 2 ^ 24))))
          [2..<64])"
    unfolding RADII_def arange_def rnd64_three_quarters rnd64_stop rnd64_step rnd64_span
      rnd64_count rnd64_next Let_def count fl32_first fl32_second f32_sub_def f32_neg.simps
      f32_add.simps fl32_delta
    by (rule refl)
  also have "\<dots> = [Finite (3 / 4), Finite (12918456 / 2 ^ 24)]
      @ map (\<lambda>i. f32_add (Finite (3 / 4)) (f32_mul (fl32 (real i)) (Finite (335544 / 2 ^ 24))))
          [2..<64]"
    by (rule take_all) (simp del: upt_Suc)
  also have "map (\<lambda>i. f32_add (Finite (3 / 4)) (f32_mul (fl32 (real i)) (Finite (335544 / 2 ^ 24))))
          [2..<64] = map (\<lambda>i. Finite ((1572864 + 41943 * real i) / 2 ^ 21)) [2..<64]"
  proof (rule map_cong [OF refl])
    fix i :: nat
    assume "i \<in> set [2..<64]"
    then have "i < 64" by (simp only: set_upt atLeastLessThan_iff)
    then show "f32_add (Finite (3 / 4)) (f32_mul (fl32 (real i)) (Finite (335544 / 2 ^ 24)))
        = Finite ((1572864 + 41943 * real i) / 2 ^ 21)"
      by (rule RADII_entry)
  qed
  also have "[Finite (3 / 4), Finite (12918456 / 2 ^ 24)]
      @ map (\<lambda>i. Finite ((1572864 + 41943 * real i) / 2 ^ 21)) [2..<64]
      = map (\<lambda>i. Finite ((1572864 + 41943 * real i) / 2 ^ 21)) ([0, 1] @ [2..<64])"
    by simp
  also have "[0, 1] @ [2..<64] = [0..<64::nat]"
  proof -
    have a: "[0..<64::nat] = 0 # [Suc 0..<64]" by (rule upt_conv_Cons) simp
    have b: "[Suc 0..<64::nat] = Suc 0 # [Suc (Suc 0)..<64]" by (rule upt_conv_Cons) simp
    have c: "Suc (Suc 0) = 2" by simp
    show ?thesis unfolding a b c by simp
  qed
  finally show ?thesis .
qed

lemma length_RADII: "length RADII = 64"
  by (simp add: RADII_eq)

lemma RADII_increasing: "sorted_wrt f32_less RADII"
  unfolding RADII_eq by (simp add: sorted_wrt_map sorted_wrt_iff_nth_less del: upt_Suc)

lemma fl32_narrow_values:
  "fl32 (8388609 / 8388608) = Finite (8388609 / 8388608)"
  "fl32 (8388609 / 16777216) = Finite (8388609 / 16777216)"
  using fl32_grid [of 8388609 "- 23"] fl32_grid [of 8388609 "- 24"]
  by (simp_all add: power_int_minus)

lemma fl32_narrow_tie: "fl32 (16777217 / 16777216) = Finite 1"
proof -
  have "rnd32 (16777217 / 16777216) = 1"
    unfolding rnd32_def
    by (subst rnd_at_exp [of 0]) (simp_all add: round_half_even_def power_int_minus)
  then show ?thesis by (simp add: fl32_def)
qed

lemma linspace_narrow:
  "linspace 1 (8388609 / 8388608) 3 = Inr [Finite 1, Finite 1, Finite (8388609 / 8388608)]"
  by (simp add: linspace_def Let_def upt_rec f32_sub_def fl32_values fl32_narrow_values
      fl32_narrow_tie)

text \<open>
  C8. The claim has the radii strictly increasing whenever \<open>min_radius < max_radius\<close>
  and \<open>num_radii \<ge> 2\<close>, the first equal to \<open>min_radius\<close> and the last to
  \<open>max_radius\<close>. The radii are \<open>float32\<close> numbers: the first and the last are the bounds
  rounded to \<open>float32\<close>, and neighbouring radii can round to the same number. As
  amended: when \<open>num_radii \<ge> 2\<close> and both bounds round to finite \<open>float32\<close> numbers
  \<open>a\<close> and \<open>b\<close>, \<open>create_radii\<close> of either predictor returns \<open>num_radii\<close> radii, the
  first equal to \<open>a\<close> and the last to \<open>b\<close>; if moreover \<open>num_radii \<le> 2^24\<close>, the
  bounds are at most \<open>2^124\<close> in magnitude and the step \<open>(b - a) / (num_radii - 1)\<close>
  exceeds \<open>max \<bar>a\<bar> \<bar>b\<bar> / 2^19 + 2^-147\<close>, all radii are finite and strictly increasing.
  The constant \<open>RADII\<close> is strictly increasing.
\<close>

theorem create_radii_float32:
  assumes "2 \<le> num_radii P"
    and "fl32 (min_radius P) = Finite a" and "fl32 (max_radius P) = Finite b"
    and "2 \<le> num_radii Q"
    and "fl32 (min_radius Q) = Finite c" and "fl32 (max_radius Q) = Finite d"
  shows "(\<exists>rs. create_radii P = Inr rs \<and> length rs = nat (num_radii P)
            \<and> hd rs = Finite a \<and> last rs = Finite b
            \<and> (num_radii P \<le> 16777216 \<and> \<bar>a\<bar> \<le> 2 ^ 124 \<and> \<bar>b\<bar> \<le> 2 ^ 124
                 \<and> max \<bar>a\<bar> \<bar>b\<bar> / 524288 + 2 powi (- 147)
                     < (b - a) / real_of_int (num_radii P - 1)
               \<longrightarrow> (\<exists>xs. rs = map Finite xs \<and> sorted_wrt (<) xs)))
       \<and> (\<exists>rs. factorized_create_radii Q = Inr rs \<and> length rs = nat (num_radii Q)
            \<and> hd rs = Finite c \<and> last rs = Finite d
            \<and> (num_radii Q \<le> 16777216 \<and> \<bar>c\<bar> \<le> 2 ^ 124 \<and> \<bar>d\<bar> \<le> 2 ^ 124
                 \<and> max \<bar>c\<bar> \<bar>d\<bar> / 524288 + 2 powi (- 147)
                     < (d - c) / real_of_int (num_radii Q - 1)
               \<longrightarrow> (\<exists>xs. rs = map Finite xs \<and> sorted_wrt (<) xs)))
       \<and> sorted_wrt f32_less RADII"
proof (intro conjI)
  show "\<exists>rs. create_radii P = Inr rs \<and> length rs = nat (num_radii P)
            \<and> hd rs = Finite a \<and> last rs = Finite b
            \<and> (num_radii P \<le> 16777216 \<and> \<bar>a\<bar> \<le> 2 ^ 124 \<and> \<bar>b\<bar> \<le> 2 ^ 124
                 \<and> max \<bar>a\<bar> \<bar>b\<bar> / 524288 + 2 powi (- 147)
                     < (b - a) / real_of_int (num_radii P - 1)
               \<longrightarrow> (\<exists>xs. rs = map Finite xs \<and> sorted_wrt (<) xs))"
    unfolding create_radii_def by (rule linspace_float32 [OF assms(1-3)])
  show "\<exists>rs. factorized_create_radii Q = Inr rs \<and> length rs = nat (num_radii Q)
            \<and> hd rs = Finite c \<and> last rs = Finite d
            \<and> (num_radii Q \<le> 16777216 \<and> \<bar>c\<bar> \<le> 2 ^ 124 \<and> \<bar>d\<bar> \<le> 2 ^ 124
                 \<and> max \<bar>c\<bar> \<bar>d\<bar> / 524288 + 2 powi (- 147)
                     < (d - c) / real_of_int (num_radii Q - 1)
               \<longrightarrow> (\<exists>xs. rs = map Finite xs \<and> sorted_wrt (<) xs))"
    unfolding factorized_create_radii_def by (rule linspace_float32 [OF assms(4-6)])
  show "sorted_wrt f32_less RADII" by (rule RADII_increasing)
qed

theorem create_radii_float32_witness:
  "2 \<le> num_radii demo_predictor
   \<and> fl32 (min_radius demo_predictor) = Finite 1 \<and> fl32 (max_radius demo_predictor) = Finite 2
   \<and> 2 \<le> num_radii demo_factorized
   \<and> fl32 (min_radius demo_factorized) = Finite 1 \<and> fl32 (max_radius demo_factorized) = Finite 2
   \<and> num_radii demo_predictor \<le> 16777216
   \<and> max \<bar>1\<bar> \<bar>2\<bar> / 524288 + 2 powi (- 147)
       < ((2::real) - 1) / real_of_int (num_radii demo_predictor - 1)
   \<and> create_radii demo_predictor = Inr [Finite 1, Finite (3 / 2), Finite 2]
   \<and> factorized_create_radii demo_factorized = Inr [Finite 1, Finite (3 / 2), Finite 2]
   \<and> sorted_wrt (<) [1, 3 / 2, 2 :: real]"
proof -
  have hP: "2 \<le> num_radii demo_predictor"
    "fl32 (min_radius demo_predictor) = Finite 1" "fl32 (max_radius demo_predictor) = Finite 2"
    by (simp_all add: demo_predictor_def fl32_values)
  have hQ: "2 \<le> num_radii demo_factorized"
    "fl32 (min_radius demo_factorized) = Finite 1" "fl32 (max_radius demo_factorized) = Finite 2"
    by (simp_all add: demo_factorized_def fl32_values)
  have sp: "num_radii demo_predictor \<le> 16777216" "\<bar>1::real\<bar> \<le> 2 ^ 124" "\<bar>2::real\<bar> \<le> 2 ^ 124"
    "max \<bar>1\<bar> \<bar>2\<bar> / 524288 + 2 powi (- 147)
       < ((2::real) - 1) / real_of_int (num_radii demo_predictor - 1)"
    by (simp_all add: demo_predictor_def power_int_minus)
  have r: "create_radii demo_predictor = Inr [Finite 1, Finite (3 / 2), Finite 2]"
    "factorized_create_radii demo_factorized = Inr [Finite 1, Finite (3 / 2), Finite 2]"
    by (simp_all add: create_radii_def factorized_create_radii_def demo_predictor_def
        demo_factorized_def linspace_demo)
  from create_radii_float32 [OF hP hQ]
  have "\<exists>rs. create_radii demo_predictor = Inr rs
      \<and> (num_radii demo_predictor \<le> 16777216 \<and> \<bar>1::real\<bar> \<le> 2 ^ 124 \<and> \<bar>2::real\<bar> \<le> 2 ^ 124
           \<and> max \<bar>1\<bar> \<bar>2\<bar> / 524288 + 2 powi (- 147)
               < ((2::real) - 1) / real_of_int (num_radii demo_predictor - 1)
         \<longrightarrow> (\<exists>xs. rs = map Finite xs \<and> sorted_wrt (<) xs))"
    by blast
  then have "\<exists>xs. [Finite 1, Finite (3 / 2), Finite 2] = map Finite xs \<and> sorted_wrt (<) xs"
    using r(1) sp by auto
  then obtain xs where xs: "[Finite 1, Finite (3 / 2), Finite 2] = map Finite xs"
    "sorted_wrt (<) xs"
    by (elim exE conjE)
  from xs(1) have "xs = [1, 3 / 2, 2]" by (auto simp: Cons_eq_map_conv)
  with xs(2) have "sorted_wrt (<) [1, 3 / 2, 2 :: real]" by simp
  with hP hQ sp r show ?thesis by blast
qed

theorem create_radii_not_increasing_counterexample:
  "min_radius wide_predictor < max_radius wide_predictor \<and> 2 \<le> num_radii wide_predictor
   \<and> create_radii wide_predictor = Inr [Finite 16777216, Finite 16777216, Finite 16777218]
   \<and> \<not> sorted_wrt f32_less [Finite 16777216, Finite 16777216, Finite 16777218]
   \<and> min_radius narrow_predictor < max_radius narrow_predictor
   \<and> 2 \<le> num_radii narrow_predictor
   \<and> create_radii narrow_predictor = Inr [Finite 1, Finite 1, Finite (8388609 / 8388608)]
   \<and> \<not> sorted_wrt f32_less [Finite 1, Finite 1, Finite (8388609 / 8388608)]"
  by (simp add: create_radii_def wide_predictor_def narrow_predictor_def demo_predictor_def
      linspace_wide linspace_narrow)

subsection \<open>\<open>S2Activation.__call__\<close>\<close>

lemma extract_irreps_info_raises: "\<exists>e. extract_irreps_info self = Inl e"
  by (simp add: extract_irreps_info_def S2Activation_getattr_def Let_def)

text \<open>
  C9. The claim says that \<open>S2Activation\<close> with the identity activation and without
  layer normalisation returns its input coefficients. The source never gets that far:
  every call of \<open>S2Activation.__call__\<close> raises, and on a well-formed module
  (irreps \<open>1x0e + 1x1o\<close>, resolution \<open>(4, 3)\<close>) the exception is the
  \<open>AttributeError\<close> of \<open>self.res\<close>.
\<close>

theorem S2Activation_call_raises:
  "(\<exists>e. S2Activation_call T self feature_coeffs = Inl e)
   \<and> S2Activation_call T identity_s2_activation
        \<lparr>ia_irreps = [(1, (0, 1)), (1, (1, - 1))], ia_array = [1, 0, 0, 0]\<rparr> = Inl AttributeError"
proof
  from extract_irreps_info_raises obtain e where "extract_irreps_info self = Inl e" by blast
  then show "\<exists>e. S2Activation_call T self feature_coeffs = Inl e"
    by (simp add: S2Activation_call_def)
next
  have "extract_irreps_info identity_s2_activation = Inl AttributeError"
    by (simp add: extract_irreps_info_def S2Activation_getattr_def Let_def
        identity_s2_activation_def irreps_ls_def upt_rec)
  then show "S2Activation_call T identity_s2_activation
        \<lparr>ia_irreps = [(1, (0, 1)), (1, (1, - 1))], ia_array = [1, 0, 0, 0]\<rparr> = Inl AttributeError"
    by (simp add: S2Activation_call_def)
qed

subsection \<open>\<open>GSchNet.target_species_logits\<close>\<close>

text \<open>
  C7. The claim says that \<open>GSchNet.target_species_logits\<close> returns an array of shape
  \<open>(num_graphs, NUM_ELEMENTS)\<close>. In the source no call returns an array: the per-node
  logits have shape \<open>(num_nodes, NUM_ELEMENTS, NUM_ELEMENTS)\<close>, the first assertion
  compares that with \<open>(num_nodes, NUM_ELEMENTS)\<close> and fails, and the body has no
  \<open>return\<close> statement after the assertions.
\<close>

theorem GSchNet_target_species_logits_returns_no_logits:
  "(\<forall>logits. GSchNet_target_species_logits scatter_sum self node_embeddings counts
       \<noteq> Inr (Some logits))
   \<and> (\<exists>e. GSchNet_target_species_logits scatter_sum self node_embeddings counts = Inl e)
   \<and> shape (apply_mlp (species_mlp self) NUM_ELEMENTS
        (vmap_multiply node_embeddings
          (embed_lookup (latent_size self) (species_embedder self) [0..<NUM_ELEMENTS])))
      = [hd (shape node_embeddings), NUM_ELEMENTS, NUM_ELEMENTS]
   \<and> GSchNet_target_species_logits (\<lambda>x n. Inr x) demo_gschnet
        \<lparr>shape = [1, 2], flat = [1, 2]\<rparr> [1] = Inl AssertionError"
  by (simp add: GSchNet_target_species_logits_def Let_def apply_mlp_def vmap_multiply_def
      embed_lookup_def NUM_ELEMENTS_def)

subsection \<open>Segment ids of a batch\<close>

lemma length_cumsum_from [simp]: "length (cumsum_from acc xs) = length xs"
  by (induction xs arbitrary: acc) simp_all

lemma cumsum_from_nth:
  "i < length xs \<Longrightarrow> cumsum_from acc xs ! i = acc + sum_list (take (Suc i) xs)"
proof (induction xs arbitrary: acc i)
  case Nil
  then show ?case by simp
next
  case (Cons x xs)
  show ?case
  proof (cases i)
    case 0
    then show ?thesis by simp
  next
    case (Suc k)
    with Cons.prems have "k < length xs" by simp
    from Cons.IH [OF this, of "acc + x"] Suc show ?thesis by (simp add: add.assoc)
  qed
qed

lemma length_cumsum [simp]: "length (cumsum xs) = length xs"
  by (simp add: cumsum_def)

lemma cumsum_nth: "i < length xs \<Longrightarrow> cumsum xs ! i = sum_list (take (Suc i) xs)"
  by (simp add: cumsum_def cumsum_from_nth)

lemma seg_start_mono: "i \<le> k \<Longrightarrow> seg_start reps i \<le> seg_start reps k"
proof -
  assume "i \<le> k"
  then obtain d where k: "k = i + d" by (auto simp: le_iff_add)
  have "take (i + d) reps = take i reps @ take d (drop i reps)"
    by (simp add: take_add)
  then show ?thesis by (simp add: seg_start_def k)
qed

lemma seg_start_Suc:
  "g < length reps \<Longrightarrow> seg_start reps (Suc g) = seg_start reps g + reps ! g"
  by (simp add: seg_start_def take_Suc_conv_app_nth)

lemma scatter_indices_eq:
  assumes "reps \<noteq> []"
  shows "cumsum (0 # butlast reps) = map (seg_start reps) [0..<length reps]"
proof (rule nth_equalityI)
  show "length (cumsum (0 # butlast reps)) = length (map (seg_start reps) [0..<length reps])"
    using assms by simp
next
  fix i assume "i < length (cumsum (0 # butlast reps))"
  then have i: "i < length reps" using assms by simp
  then have "take i (butlast reps) = take i reps"
    by (simp add: take_butlast)
  then show "cumsum (0 # butlast reps) ! i = map (seg_start reps) [0..<length reps] ! i"
    using i assms by (simp add: cumsum_nth seg_start_def)
qed

lemma filter_le_upt: "k < n \<Longrightarrow> filter (\<lambda>i. i \<le> k) [0..<n] = [0..<Suc k]"
proof (induction n)
  case 0
  then show ?case by simp
next
  case (Suc n)
  show ?case
  proof (cases "k < n")
    case True
    with Suc.IH show ?thesis by simp
  next
    case False
    with Suc.prems have "k = n" by simp
    then have "filter (\<lambda>i. i \<le> k) [0..<n] = [0..<n]" by (auto intro: filter_True)
    with \<open>k = n\<close> show ?thesis by simp
  qed
qed

lemma repeat_ids_block:
  assumes g: "g < length reps" and lo: "seg_start reps g \<le> j" and hi: "j < seg_start reps (Suc g)"
    and j: "j < tot"
  shows "jnp_repeat_arange reps tot ! j = int g"
proof -
  have ne: "reps \<noteq> []" using g by auto
  have iff: "seg_start reps i \<le> j \<longleftrightarrow> i \<le> g" if "i < length reps" for i
  proof
    assume "seg_start reps i \<le> j"
    show "i \<le> g"
    proof (rule ccontr)
      assume "\<not> i \<le> g"
      then have "Suc g \<le> i" by simp
      from seg_start_mono [OF this, of reps] hi \<open>seg_start reps i \<le> j\<close> show False by simp
    qed
  next
    assume "i \<le> g"
    from seg_start_mono [OF this, of reps] lo show "seg_start reps i \<le> j" by simp
  qed
  have "filter (\<lambda>s. s \<le> j) (map (seg_start reps) [0..<length reps])
        = map (seg_start reps) (filter (\<lambda>i. seg_start reps i \<le> j) [0..<length reps])"
    by (simp add: filter_map comp_def)
  also have "filter (\<lambda>i. seg_start reps i \<le> j) [0..<length reps]
        = filter (\<lambda>i. i \<le> g) [0..<length reps]"
    by (rule filter_cong) (auto simp: iff)
  also have "\<dots> = [0..<Suc g]" by (rule filter_le_upt [OF g])
  finally have cnt: "length (filter (\<lambda>s. s \<le> j) (map (seg_start reps) [0..<length reps])) = Suc g"
    by simp
  show ?thesis
    using j g ne cnt
    by (simp add: jnp_repeat_arange_def scatter_indices_eq jnp_take_def Let_def del: upt_Suc)
qed

lemma seg_block_exists:
  "j < sum_list reps \<Longrightarrow>
     \<exists>k < length reps. seg_start reps k \<le> j \<and> j < seg_start reps (Suc k)"
proof (induction reps arbitrary: j)
  case Nil
  then show ?case by simp
next
  case (Cons r rs)
  show ?case
  proof (cases "j < r")
    case True
    then have "seg_start (r # rs) 0 \<le> j \<and> j < seg_start (r # rs) (Suc 0)"
      by (simp add: seg_start_def)
    then show ?thesis by blast
  next
    case False
    with Cons.prems have "j - r < sum_list rs" by simp
    from Cons.IH [OF this] obtain k where k: "k < length rs"
      "seg_start rs k \<le> j - r" "j - r < seg_start rs (Suc k)" by blast
    with False have "Suc k < length (r # rs) \<and> seg_start (r # rs) (Suc k) \<le> j
        \<and> j < seg_start (r # rs) (Suc (Suc k))"
      unfolding seg_start_def by (simp del: take_Suc_Cons add: take_Suc_Cons [of _ r rs]) linarith
    then show ?thesis by blast
  qed
qed

lemma repeat_ids_iff:
  assumes g: "g < length reps" and j: "j < sum_list reps"
  shows "jnp_repeat_arange reps (sum_list reps) ! j = int g
           \<longleftrightarrow> seg_start reps g \<le> j \<and> j < seg_start reps (Suc g)"
proof
  assume eq: "jnp_repeat_arange reps (sum_list reps) ! j = int g"
  from seg_block_exists [OF j] obtain k where k: "k < length reps"
    "seg_start reps k \<le> j" "j < seg_start reps (Suc k)" by blast
  from repeat_ids_block [OF k j] eq have "k = g" by simp
  with k show "seg_start reps g \<le> j \<and> j < seg_start reps (Suc g)" by simp
next
  assume "seg_start reps g \<le> j \<and> j < seg_start reps (Suc g)"
  then show "jnp_repeat_arange reps (sum_list reps) ! j = int g"
    using repeat_ids_block [OF g _ _ j] by simp
qed

lemma length_repeat [simp]: "length (jnp_repeat_arange reps tot) = tot"
  by (simp add: jnp_repeat_arange_def Let_def)

lemma repeat_ids_range:
  assumes j: "j < sum_list reps"
  shows "0 \<le> jnp_repeat_arange reps (sum_list reps) ! j
       \<and> jnp_repeat_arange reps (sum_list reps) ! j < int (length reps)"
proof -
  from seg_block_exists [OF j] obtain k where k: "k < length reps"
    "seg_start reps k \<le> j" "j < seg_start reps (Suc k)" by blast
  from repeat_ids_block [OF k j] k(1) show ?thesis by simp
qed

subsection \<open>The per-graph softmax\<close>

lemma then_do_Inr [simp]: "then_do (Inr x) f = f x"
  by (simp add: then_do_def)

lemma then_do_Inl [simp]: "then_do (Inl e) f = Inl e"
  by (simp add: then_do_def)

lemma clamp_index_in_range: "0 \<le> i \<Longrightarrow> i < int n \<Longrightarrow> clamp_index n i = nat i"
  by (simp add: clamp_index_def)

lemma jnp_getitem_in_range:
  assumes "xs \<noteq> []" and "\<forall>i \<in> set idx. 0 \<le> i \<and> i < int (length xs)"
  shows "jnp_getitem xs idx = Inr (map (\<lambda>i. xs ! nat i) idx)"
  using assms by (simp add: jnp_getitem_def clamp_index_in_range)

lemma broadcast2_same [simp]: "length xs = length ys \<Longrightarrow> broadcast2 xs ys = Inr (zip xs ys)"
  by (simp add: broadcast2_def)

lemma segment_softmax_in_range:
  assumes len: "length logits = length ids" and num: "0 < num"
    and rng: "\<forall>i \<in> set ids. 0 \<le> i \<and> i < int num"
  defines "exps \<equiv> map (\<lambda>(l, i). exp (l - segment_max logits ids num ! nat i)) (zip logits ids)"
  shows "shifted_exponentials logits ids num = Inr exps"
    and "softmax_normalizers logits ids num = Inr (segment_sum exps ids num)"
    and "segment_softmax logits ids num
           = Inr (map (\<lambda>(e, i). e / segment_sum exps ids num ! nat i) (zip exps ids))"
proof -
  have g1: "jnp_getitem (segment_max logits ids num) ids
      = Inr (map (\<lambda>i. segment_max logits ids num ! nat i) ids)"
    using num rng by (intro jnp_getitem_in_range) (auto simp: segment_max_def)
  have z1: "zip logits (map (\<lambda>i. segment_max logits ids num ! nat i) ids)
      = map (\<lambda>(l, i). (l, segment_max logits ids num ! nat i)) (zip logits ids)"
    by (simp add: zip_map2)
  show e: "shifted_exponentials logits ids num = Inr exps"
    unfolding shifted_exponentials_def g1 exps_def using len
    by (simp add: z1 case_prod_beta comp_def)
  show n: "softmax_normalizers logits ids num = Inr (segment_sum exps ids num)"
    by (simp add: softmax_normalizers_def e)
  have g2: "jnp_getitem (segment_sum exps ids num) ids
      = Inr (map (\<lambda>i. segment_sum exps ids num ! nat i) ids)"
    using num rng by (intro jnp_getitem_in_range) (auto simp: segment_sum_def)
  have le: "length exps = length ids" using len by (simp add: exps_def)
  have z2: "zip exps (map (\<lambda>i. segment_sum exps ids num ! nat i) ids)
      = map (\<lambda>(e, i). (e, segment_sum exps ids num ! nat i)) (zip exps ids)"
    by (simp add: zip_map2)
  show "segment_softmax logits ids num
           = Inr (map (\<lambda>(e, i). e / segment_sum exps ids num ! nat i) (zip exps ids))"
    unfolding segment_softmax_def e n using le
    by (simp add: g2 z2 case_prod_beta comp_def)
qed

lemma segment_entries_sum:
  assumes "length data = length ids"
  shows "sum_list (segment_entries data ids s)
           = (\<Sum>j \<in> {j. j < length ids \<and> ids ! j = s}. data ! j)"
proof -
  have "sum_list (segment_entries data ids s)
      = sum_list (map (\<lambda>(x, i). if i = s then x else 0) (zip data ids))"
    unfolding segment_entries_def
    by (induction data ids rule: list_induct2') auto
  also have "zip data ids = map (\<lambda>j. (data ! j, ids ! j)) [0..<length ids]"
    using assms by (intro nth_equalityI) simp_all
  also have "sum_list (map (\<lambda>(x, i). if i = s then x else 0)
        (map (\<lambda>j. (data ! j, ids ! j)) [0..<length ids]))
      = (\<Sum>j = 0..<length ids. if ids ! j = s then data ! j else 0)"
    by (simp add: comp_def interv_sum_list_conv_sum_set_nat)
  also have "\<dots> = (\<Sum>j \<in> {j. j < length ids \<and> ids ! j = s}. data ! j)"
    by (subst sum.inter_filter [symmetric]) (auto intro: sum.cong)
  finally show ?thesis .
qed

lemma segment_block_set:
  assumes "g < length reps"
  shows "{j. j < sum_list reps \<and> jnp_repeat_arange reps (sum_list reps) ! j = int g}
           = {seg_start reps g ..< seg_start reps (Suc g)}"
proof -
  have "seg_start reps (Suc g) \<le> seg_start reps (length reps)"
    using assms by (intro seg_start_mono) simp
  then have top: "seg_start reps (Suc g) \<le> sum_list reps" by (simp add: seg_start_def)
  show ?thesis
    using repeat_ids_iff [OF assms] top by auto
qed

lemma repeat_ids_in_range:
  "\<forall>i \<in> set (jnp_repeat_arange reps (sum_list reps)). 0 \<le> i \<and> i < int (length reps)"
proof
  fix i assume "i \<in> set (jnp_repeat_arange reps (sum_list reps))"
  then obtain j where "j < sum_list reps" "i = jnp_repeat_arange reps (sum_list reps) ! j"
    by (auto simp: in_set_conv_nth)
  with repeat_ids_range [of j reps] show "0 \<le> i \<and> i < int (length reps)" by simp
qed

lemma partition_softmax_blocks:
  assumes len: "length logits = sum_list reps" and g: "g < length reps"
  defines "ids \<equiv> jnp_repeat_arange reps (sum_list reps)"
  defines "exps \<equiv> map (\<lambda>(l, i). exp (l - segment_max logits ids (length reps) ! nat i))
                      (zip logits ids)"
  defines "Z \<equiv> segment_sum exps ids (length reps)"
  defines "probs \<equiv> map (\<lambda>(e, i). e / Z ! nat i) (zip exps ids)"
  shows "partition_softmax logits reps (sum_list reps) = Inr probs"
    and "softmax_normalizers logits ids (length reps) = Inr Z"
    and "length probs = sum_list reps"
    and "Z ! g = (\<Sum>j = seg_start reps g ..< seg_start reps (Suc g). exps ! j)"
    and "\<forall>j. seg_start reps g \<le> j \<and> j < seg_start reps (Suc g) \<longrightarrow> probs ! j = exps ! j / Z ! g"
    and "\<forall>j < sum_list reps. 0 < exps ! j"
proof -
  have num: "0 < length reps" using g by (cases reps) simp_all
  have lid: "length logits = length ids" by (simp add: ids_def len)
  have rng: "\<forall>i \<in> set ids. 0 \<le> i \<and> i < int (length reps)"
    unfolding ids_def by (rule repeat_ids_in_range)
  from segment_softmax_in_range(3) [OF lid num rng]
  show "partition_softmax logits reps (sum_list reps) = Inr probs"
    by (simp add: partition_softmax_def probs_def Z_def exps_def ids_def)
  from segment_softmax_in_range(2) [OF lid num rng]
  show "softmax_normalizers logits ids (length reps) = Inr Z"
    by (simp add: Z_def exps_def)
  have le: "length exps = length ids" using lid by (simp add: exps_def)
  show lp: "length probs = sum_list reps" using le by (simp add: probs_def ids_def)
  have "Z ! g = sum_list (segment_entries exps ids (int g))"
    using g by (simp add: Z_def segment_sum_def)
  also have "\<dots> = (\<Sum>j \<in> {j. j < length ids \<and> ids ! j = int g}. exps ! j)"
    by (rule segment_entries_sum [OF le])
  also have "{j. j < length ids \<and> ids ! j = int g} = {seg_start reps g ..< seg_start reps (Suc g)}"
    using segment_block_set [OF g] by (simp add: ids_def)
  finally show "Z ! g = (\<Sum>j = seg_start reps g ..< seg_start reps (Suc g). exps ! j)" .
  have top: "seg_start reps (Suc g) \<le> sum_list reps"
    using seg_start_mono [of "Suc g" "length reps" reps] g by (simp add: seg_start_def)
  show "\<forall>j. seg_start reps g \<le> j \<and> j < seg_start reps (Suc g) \<longrightarrow> probs ! j = exps ! j / Z ! g"
  proof (intro allI impI)
    fix j assume j: "seg_start reps g \<le> j \<and> j < seg_start reps (Suc g)"
    then have jn: "j < sum_list reps" using top by simp
    have "ids ! j = int g"
      unfolding ids_def using repeat_ids_iff [OF g jn] j by simp
    then show "probs ! j = exps ! j / Z ! g"
      using jn le by (simp add: probs_def ids_def)
  qed
  show "\<forall>j < sum_list reps. 0 < exps ! j"
    using lid by (simp add: exps_def ids_def case_prod_beta)
qed

lemma partition_softmax_block_sum:
  assumes len: "length logits = sum_list reps" and g: "g < length reps" and pos: "0 < reps ! g"
  shows "\<exists>probs. partition_softmax logits reps (sum_list reps) = Inr probs
           \<and> length probs = sum_list reps
           \<and> (\<Sum>j = seg_start reps g ..< seg_start reps g + reps ! g. probs ! j) = 1"
proof -
  define ids where "ids = jnp_repeat_arange reps (sum_list reps)"
  define exps where "exps = map (\<lambda>(l, i). exp (l - segment_max logits ids (length reps) ! nat i))
                      (zip logits ids)"
  define Z where "Z = segment_sum exps ids (length reps)"
  define probs where "probs = map (\<lambda>(e, i). e / Z ! nat i) (zip exps ids)"
  note facts = partition_softmax_blocks [OF len g, folded ids_def, folded exps_def, folded Z_def,
      folded probs_def]
  let ?B = "{seg_start reps g ..< seg_start reps (Suc g)}"
  have S: "seg_start reps (Suc g) = seg_start reps g + reps ! g"
    by (rule seg_start_Suc [OF g])
  have top: "seg_start reps (Suc g) \<le> sum_list reps"
    using seg_start_mono [of "Suc g" "length reps" reps] g by (simp add: seg_start_def)
  have ne: "seg_start reps g \<in> ?B" using pos S by simp
  have "0 < (\<Sum>j \<in> ?B. exps ! j)"
  proof (rule sum_pos)
    show "finite ?B" by simp
    show "?B \<noteq> {}" using ne by blast
    fix j assume "j \<in> ?B"
    then have "j < sum_list reps" using top by simp
    with facts(6) show "0 < exps ! j" by blast
  qed
  then have Zpos: "0 < Z ! g" using facts(4) by simp
  have "(\<Sum>j \<in> ?B. probs ! j) = (\<Sum>j \<in> ?B. exps ! j / Z ! g)"
    using facts(5) by (intro sum.cong) auto
  also have "\<dots> = (\<Sum>j \<in> ?B. exps ! j) / Z ! g"
    by (simp add: sum_divide_distrib)
  also have "\<dots> = 1" using Zpos facts(4) by simp
  finally have "(\<Sum>j = seg_start reps g ..< seg_start reps g + reps ! g. probs ! j) = 1"
    by (simp add: S)
  with facts(1,3) show ?thesis by blast
qed

lemma int32_in_range: "0 \<le> x \<Longrightarrow> x < 2147483648 \<Longrightarrow> int32 x = x"
  by (simp add: int32_def)

lemma get_first_node_indices_nth:
  assumes "g < length counts" and "seg_start counts g < 2147483648"
  shows "get_first_node_indices counts ! g = int (seg_start counts g)"
proof (cases g)
  case 0
  then show ?thesis by (simp add: get_first_node_indices_def seg_start_def)
next
  case (Suc k)
  with assms have k: "k < length counts - 1" by simp
  then have "butlast (map int32 (cumsum (map int counts))) ! k
      = int32 (cumsum (map int counts) ! k)"
    by (simp add: nth_butlast)
  also have "cumsum (map int counts) ! k = sum_list (take (Suc k) (map int counts))"
    using k by (simp add: cumsum_nth)
  also have "\<dots> = int (sum_list (take (Suc k) counts))"
    by (simp only: take_map sum_list_of_nat)
  also have "int32 (int (sum_list (take (Suc k) counts))) = int (sum_list (take (Suc k) counts))"
    using assms(2) Suc by (intro int32_in_range) (simp_all add: seg_start_def)
  finally show ?thesis
    using Suc by (simp add: get_first_node_indices_def seg_start_def)
qed

lemma set_segment_entries:
  assumes "length data = length ids"
  shows "set (segment_entries data ids s) = (\<lambda>j. data ! j) ` {j. j < length ids \<and> ids ! j = s}"
  using assms by (force simp: segment_entries_def set_zip image_iff)

lemma partition_softmax_single:
  assumes len: "length logits = sum_list reps" and g: "g < length reps" and one: "reps ! g = 1"
  shows "\<exists>probs Z. partition_softmax logits reps (sum_list reps) = Inr probs
           \<and> softmax_normalizers logits (jnp_repeat_arange reps (sum_list reps)) (length reps) = Inr Z
           \<and> Z ! g = 1 \<and> probs ! seg_start reps g = 1"
proof -
  define ids where "ids = jnp_repeat_arange reps (sum_list reps)"
  define exps where "exps = map (\<lambda>(l, i). exp (l - segment_max logits ids (length reps) ! nat i))
                      (zip logits ids)"
  define Z where "Z = segment_sum exps ids (length reps)"
  define probs where "probs = map (\<lambda>(e, i). e / Z ! nat i) (zip exps ids)"
  note facts = partition_softmax_blocks [OF len g, folded ids_def, folded exps_def, folded Z_def,
      folded probs_def]
  let ?s = "seg_start reps g"
  have S: "seg_start reps (Suc g) = ?s + 1"
    using seg_start_Suc [OF g] one by simp
  have top: "seg_start reps (Suc g) \<le> sum_list reps"
    using seg_start_mono [of "Suc g" "length reps" reps] g by (simp add: seg_start_def)
  have sn: "?s < sum_list reps" using S top by simp
  have lid: "length logits = length ids" by (simp add: ids_def len)
  have block: "{j. j < length ids \<and> ids ! j = int g} = {?s}"
    using segment_block_set [OF g] S by (auto simp: ids_def)
  have idg: "ids ! ?s = int g"
    using block by auto
  have "set (segment_entries logits ids (int g)) = {logits ! ?s}"
    by (simp add: set_segment_entries [OF lid] block)
  then have mx: "segment_max logits ids (length reps) ! g = logits ! ?s"
    using g by (simp add: segment_max_def)
  have "exps ! ?s = exp (logits ! ?s - segment_max logits ids (length reps) ! nat (ids ! ?s))"
    using sn lid by (simp add: exps_def ids_def)
  then have e1: "exps ! ?s = 1" by (simp add: idg mx)
  have Z1: "Z ! g = 1" using facts(4) S e1 by simp
  have "probs ! ?s = exps ! ?s / Z ! g" using facts(5) S by simp
  then have "probs ! ?s = 1" by (simp add: e1 Z1)
  with facts(1,2) Z1 show ?thesis by (auto simp: ids_def)
qed

text \<open>
  C5. The claim counts a stop mass, contributed by a virtual stop logit, into the sum of
  a graph's focus probabilities. The source has no stop logit: \<open>focus_probs\<close> is the
  per-graph softmax over the node logits alone, with one entry per node. As amended: in
  a batch whose node counts add up to the number of nodes, for every graph with at least
  one node the focus probabilities of the graph's nodes sum to 1.
\<close>

theorem focus_probs_sum_to_one:
  assumes "sum_list (n_node graphs) = length (positions (nodes graphs))"
    and "length (ia_array node_embeddings) = length (positions (nodes graphs))"
    and "g < length (n_node graphs)" and "0 < n_node graphs ! g"
  shows "\<exists>probs. focus_probs M node_embeddings graphs = Inr probs
           \<and> length probs = length (positions (nodes graphs))
           \<and> (\<Sum>j = sum_list (take g (n_node graphs))
                   ..< sum_list (take g (n_node graphs)) + n_node graphs ! g.
                probs ! j) = 1"
proof -
  have len: "length (MACE_focus_logits M node_embeddings) = sum_list (n_node graphs)"
    using assms(1,2) by (simp add: MACE_focus_logits_def)
  from partition_softmax_block_sum [OF len assms(3,4)] assms(1)
  show ?thesis
    by (simp add: focus_probs_def seg_start_def)
qed

theorem focus_probs_sum_to_one_witness:
  "sum_list (n_node demo_fragment) = length (positions (nodes demo_fragment))
   \<and> length (ia_array demo_embeddings) = length (positions (nodes demo_fragment))
   \<and> (0::nat) < length (n_node demo_fragment) \<and> 0 < n_node demo_fragment ! 0
   \<and> sum_list (take 0 (n_node demo_fragment)) = 0
   \<and> n_node demo_fragment ! 0 = 3
   \<and> (\<exists>probs. focus_probs demo_modules demo_embeddings demo_fragment = Inr probs
         \<and> length probs = length (positions (nodes demo_fragment))
         \<and> (\<Sum>j = sum_list (take 0 (n_node demo_fragment))
                 ..< sum_list (take 0 (n_node demo_fragment)) + n_node demo_fragment ! 0.
              probs ! j) = 1)"
proof -
  have h: "sum_list (n_node demo_fragment) = length (positions (nodes demo_fragment))"
    "length (ia_array demo_embeddings) = length (positions (nodes demo_fragment))"
    "(0::nat) < length (n_node demo_fragment)" "0 < n_node demo_fragment ! 0"
    by (simp_all add: demo_fragment_def demo_embeddings_def)
  have f: "sum_list (take 0 (n_node demo_fragment)) = 0"
    "n_node demo_fragment ! 0 = 3"
    by (simp_all add: demo_fragment_def)
  from focus_probs_sum_to_one [OF h, of demo_modules] h f show ?thesis by blast
qed

theorem focus_probs_stop_mass_counterexample:
  "focus_probs demo_modules single_atom_embeddings single_atom = Inr [1]
   \<and> spec_focus_distribution_with_stop [0] 0 = ([1 / 2], 1 / 2)
   \<and> focus_probs demo_modules single_atom_embeddings single_atom
       \<noteq> Inr (fst (spec_focus_distribution_with_stop [0] 0))"
proof -
  have a: "focus_probs demo_modules single_atom_embeddings single_atom = Inr [1]"
    by (simp add: focus_probs_def MACE_focus_logits_def demo_modules_def
        single_atom_embeddings_def single_atom_def partition_softmax_def segment_softmax_def
        shifted_exponentials_def softmax_normalizers_def segment_sum_def segment_max_def
        segment_entries_def jnp_repeat_arange_def cumsum_def jnp_take_def jnp_getitem_def
        clamp_index_def broadcast2_def Let_def)
  have b: "spec_focus_distribution_with_stop [0] 0 = ([1 / 2], 1 / 2)"
    by (simp add: spec_focus_distribution_with_stop_def Let_def)
  show ?thesis unfolding a b by simp
qed

text \<open>
  C6. In a batch whose node counts add up to the number of nodes, a graph with exactly
  one node gives that node the focus probability 1, and the sum of exponentials the
  softmax divides by for that graph is 1, not zero.
\<close>

theorem single_node_focus_probability:
  assumes "sum_list (n_node graphs) = length (positions (nodes graphs))"
    and "length (ia_array node_embeddings) = length (positions (nodes graphs))"
    and "g < length (n_node graphs)" and "n_node graphs ! g = 1"
  shows "\<exists>probs normalizers.
           focus_probs M node_embeddings graphs = Inr probs
           \<and> softmax_normalizers (MACE_focus_logits M node_embeddings)
               (jnp_repeat_arange (n_node graphs) (length (positions (nodes graphs))))
               (length (n_node graphs)) = Inr normalizers
           \<and> normalizers ! g = 1
           \<and> probs ! sum_list (take g (n_node graphs)) = 1"
proof -
  have len: "length (MACE_focus_logits M node_embeddings) = sum_list (n_node graphs)"
    using assms(1,2) by (simp add: MACE_focus_logits_def)
  from partition_softmax_single [OF len assms(3,4)] assms(1)
  show ?thesis
    by (simp add: focus_probs_def seg_start_def)
qed

theorem single_node_focus_probability_witness:
  "sum_list (n_node demo_fragment) = length (positions (nodes demo_fragment))
   \<and> length (ia_array demo_embeddings) = length (positions (nodes demo_fragment))
   \<and> (1::nat) < length (n_node demo_fragment) \<and> n_node demo_fragment ! 1 = 1
   \<and> sum_list (take 1 (n_node demo_fragment)) = 3
   \<and> (\<exists>probs normalizers.
         focus_probs demo_modules demo_embeddings demo_fragment = Inr probs
         \<and> softmax_normalizers (MACE_focus_logits demo_modules demo_embeddings)
             (jnp_repeat_arange (n_node demo_fragment) (length (positions (nodes demo_fragment))))
             (length (n_node demo_fragment)) = Inr normalizers
         \<and> normalizers ! 1 = 1
         \<and> probs ! sum_list (take 1 (n_node demo_fragment)) = 1)"
proof -
  have h: "sum_list (n_node demo_fragment) = length (positions (nodes demo_fragment))"
    "length (ia_array demo_embeddings) = length (positions (nodes demo_fragment))"
    "(1::nat) < length (n_node demo_fragment)" "n_node demo_fragment ! 1 = 1"
    by (simp_all add: demo_fragment_def demo_embeddings_def)
  have f: "sum_list (take 1 (n_node demo_fragment)) = 3"
    by (simp add: demo_fragment_def)
  from single_node_focus_probability [OF h, of demo_modules] h f show ?thesis by blast
qed

subsection \<open>Sampling one node per segment\<close>

lemma last_cumsum: "p \<noteq> [] \<Longrightarrow> last (cumsum p) = sum_list p"
proof -
  assume ne: "p \<noteq> []"
  then have c: "cumsum p \<noteq> []" by (metis length_cumsum length_0_conv)
  have "last (cumsum p) = cumsum p ! (length p - 1)"
    using c by (simp add: last_conv_nth)
  also have "\<dots> = sum_list (take (Suc (length p - 1)) p)"
    using ne by (intro cumsum_nth) simp
  also have "\<dots> = sum_list p" using ne by simp
  finally show ?thesis .
qed

lemma choice_index_positive:
  assumes tot: "0 < sum_list p" and u: "0 \<le> uniform R key" "uniform R key < 1"
  shows "choice_index R key p < length p \<and> 0 < p ! choice_index R key p"
proof -
  have ne: "p \<noteq> []" using tot by auto
  define cum where "cum = cumsum p"
  define r where "r = last cum * (1 - uniform R key)"
  define k where "k = length (takeWhile (\<lambda>c. c < r) cum)"
  have k_eq: "choice_index R key p = k"
    by (simp add: choice_index_def searchsorted_def Let_def k_def r_def cum_def)
  have lc: "last cum = sum_list p" unfolding cum_def by (rule last_cumsum [OF ne])
  have rpos: "0 < r" unfolding r_def lc using tot u by simp
  have "sum_list p * (1 - uniform R key) \<le> sum_list p * 1"
    using tot u by (intro mult_left_mono) simp_all
  then have rle: "r \<le> last cum" by (simp add: r_def lc)
  have cne: "cum \<noteq> []" using ne unfolding cum_def by (metis length_cumsum length_0_conv)
  have "takeWhile (\<lambda>c. c < r) cum \<noteq> cum"
  proof
    assume "takeWhile (\<lambda>c. c < r) cum = cum"
    then have "\<forall>c \<in> set cum. c < r" by (metis set_takeWhileD)
    with cne have "last cum < r" by simp
    with rle show False by simp
  qed
  moreover have "takeWhile (\<lambda>c. c < r) cum @ dropWhile (\<lambda>c. c < r) cum = cum"
    by (rule takeWhile_dropWhile_id)
  ultimately have "dropWhile (\<lambda>c. c < r) cum \<noteq> []" by auto
  moreover have "length (takeWhile (\<lambda>c. c < r) cum) + length (dropWhile (\<lambda>c. c < r) cum)
      = length cum"
    by (metis length_append takeWhile_dropWhile_id)
  ultimately have klt: "k < length cum"
    unfolding k_def by (cases "dropWhile (\<lambda>c. c < r) cum") simp_all
  then have kp: "k < length p" by (simp add: cum_def)
  have ge: "r \<le> cum ! k"
    using nth_length_takeWhile [of "\<lambda>c. c < r" cum] klt by (simp add: k_def)
  have below: "sum_list (take k p) < r"
  proof (cases k)
    case 0
    then show ?thesis using rpos by simp
  next
    case (Suc m)
    then have "m < length (takeWhile (\<lambda>c. c < r) cum)" by (simp add: k_def)
    then have "takeWhile (\<lambda>c. c < r) cum ! m < r"
      by (metis nth_mem set_takeWhileD)
    moreover have "takeWhile (\<lambda>c. c < r) cum ! m = cum ! m"
      using \<open>m < length (takeWhile (\<lambda>c. c < r) cum)\<close> by (rule takeWhile_nth)
    moreover have "cum ! m = sum_list (take (Suc m) p)"
      unfolding cum_def using kp Suc by (intro cumsum_nth) simp
    ultimately show ?thesis using Suc by simp
  qed
  have "cum ! k = sum_list (take (Suc k) p)"
    unfolding cum_def using kp by (rule cumsum_nth)
  also have "\<dots> = sum_list (take k p) + p ! k"
    using kp by (simp add: take_Suc_conv_app_nth)
  finally have "0 < p ! k" using ge below by simp
  with kp show ?thesis by (simp add: k_eq)
qed

lemma masked_probabilities_nth:
  assumes "length ids = length probs" and "k < length ids"
  shows "masked_probabilities i (zip ids probs) ! k = (if i = ids ! k then probs ! k else 0)"
  using assms by (simp add: masked_probabilities_def)

lemma masked_probabilities_total:
  assumes len: "length ids = length probs" and nonneg: "\<forall>p \<in> set probs. 0 \<le> p"
    and j: "j < length ids" "ids ! j = i" "0 < probs ! j"
  shows "0 < sum_list (masked_probabilities i (zip ids probs))"
proof -
  let ?m = "masked_probabilities i (zip ids probs)"
  have lm: "length ?m = length ids" using len by (simp add: masked_probabilities_def)
  have all: "\<forall>x \<in> set ?m. 0 \<le> x"
    using nonneg by (auto simp: masked_probabilities_def set_zip)
  have "?m ! j \<le> sum_list ?m"
    using all j(1) lm by (intro member_le_sum_list) (auto simp: in_set_conv_nth)
  moreover have "?m ! j = probs ! j"
    using masked_probabilities_nth [OF len j(1), of i] j(2) by simp
  ultimately show ?thesis using j(3) by simp
qed



subsection \<open>The training pass\<close>

lemma then_do_eq_Inr:
  "then_do r f = Inr y \<longleftrightarrow> (\<exists>x. r = Inr x \<and> f x = Inr y)"
  by (cases r) simp_all

lemma MACE_node_embeddings_rows:
  assumes "MACE_node_embeddings M self graphs = Inr node_embeddings"
  shows "length (ia_array node_embeddings) = length (species (nodes graphs))"
  using assms
  by (auto simp: MACE_node_embeddings_def then_do_eq_Inr Let_def axis_to_mul_def
      has_shape3_def split: if_splits)

lemma MACE_target_species_logits_rows:
  assumes "MACE_target_species_logits M fe = Inr logits"
  shows "logits = map (\<lambda>row. species_perceptron M (filter_keep (0, 1) (ia_irreps fe) row))
                    (ia_array fe)"
  using assms by (auto simp: MACE_target_species_logits_def Let_def split: if_splits)

lemma MACE_target_position_rows:
  assumes "MACE_target_position M self fe ts = Inr coeffs" and "g < length (ia_array fe)"
  shows "ia_array coeffs ! g
           = position_linear M (scale_row (ia_irreps fe) (species_embed M (ts ! g))
               (ia_array fe ! g))"
proof -
  from assms(1) have len: "length ts = length (ia_array fe)"
    and arr: "ia_array coeffs
      = map (\<lambda>(scalars, row). position_linear M (scale_row (ia_irreps fe) scalars row))
          (zip (map (species_embed M) ts) (ia_array fe))"
    by (auto simp: MACE_target_position_def Let_def has_shape2_def split: if_splits)
  show ?thesis using assms(2) len by (simp add: arr)
qed

lemma get_training_predictions_stop:
  "get_training_predictions M self (graphs\<lparr>globals := (globals graphs)\<lparr>stop := flags\<rparr>\<rparr>)
     = get_training_predictions M self graphs"
  by (simp add: get_training_predictions_def MACE_node_embeddings_def)

lemma training_predictions_facts:
  assumes "get_training_predictions M self graphs = Inr preds"
    and "MACE_node_embeddings M self graphs = Inr node_embeddings"
    and "g < length (n_node graphs)" and "0 < n_node graphs ! g"
    and "sum_list (take (Suc g) (n_node graphs)) \<le> length (species (nodes graphs))"
    and "length (species (nodes graphs)) < 2147483648"
  shows "get_training_predictions M self (graphs\<lparr>globals := (globals graphs)\<lparr>stop := flags\<rparr>\<rparr>)
           = Inr preds"
    and "focus_logits preds = map (focus_linear M) (ia_array node_embeddings)"
    and "length (focus_logits preds) = length (species (nodes graphs))"
    and "get_first_node_indices (n_node graphs) ! g = int (sum_list (take g (n_node graphs)))"
    and "sum_list (take g (n_node graphs)) < length (ia_array node_embeddings)"
    and "target_species_logits preds ! g
           = species_perceptron M (filter_keep (0, 1) (ia_irreps node_embeddings)
               (ia_array node_embeddings ! sum_list (take g (n_node graphs))))"
    and "ia_array (position_coeffs preds) ! g
           = position_linear M (scale_row (ia_irreps node_embeddings)
               (species_embed M (target_species (globals graphs) ! g))
               (ia_array node_embeddings ! sum_list (take g (n_node graphs))))"
proof -
  let ?rows = "ia_array node_embeddings"
  let ?idx = "get_first_node_indices (n_node graphs)"
  let ?s = "sum_list (take g (n_node graphs))"
  show "get_training_predictions M self (graphs\<lparr>globals := (globals graphs)\<lparr>stop := flags\<rparr>\<rparr>)
           = Inr preds"
    using assms(1) by (simp only: get_training_predictions_stop)
  have nrows: "length ?rows = length (species (nodes graphs))"
    by (rule MACE_node_embeddings_rows [OF assms(2)])
  have "?s + n_node graphs ! g \<le> length (species (nodes graphs))"
    using seg_start_Suc [OF assms(3)] assms(5) by (simp add: seg_start_def)
  then show in_range: "?s < length ?rows" using assms(4) nrows by simp
  then have small: "seg_start (n_node graphs) g < 2147483648"
    using assms(6) nrows by (simp add: seg_start_def)
  show first: "?idx ! g = int ?s"
    using get_first_node_indices_nth [OF assms(3) small] by (simp add: seg_start_def)
  have ne: "?rows \<noteq> []" using in_range by auto
  define focus_rows where "focus_rows = map (\<lambda>i. ?rows ! clamp_index (length ?rows) i) ?idx"
  have gather: "jnp_getitem ?rows ?idx = Inr focus_rows"
    using ne by (simp add: jnp_getitem_def focus_rows_def)
  define fe where "fe = node_embeddings\<lparr>ia_array := focus_rows\<rparr>"
  from assms(1) obtain logits coeffs where
    heads: "MACE_target_species_logits M fe = Inr logits"
      "MACE_target_position M self fe (target_species (globals graphs)) = Inr coeffs"
    and preds: "preds = \<lparr>focus_logits = MACE_focus_logits M node_embeddings,
      target_species_logits = logits, position_coeffs = coeffs\<rparr>"
    unfolding get_training_predictions_def assms(2) then_do_Inr Let_def gather fe_def [symmetric]
    by (auto simp: then_do_eq_Inr)
  show "focus_logits preds = map (focus_linear M) ?rows"
    by (simp add: preds MACE_focus_logits_def)
  then show "length (focus_logits preds) = length (species (nodes graphs))"
    using nrows by simp
  have lidx: "length ?idx = length (n_node graphs)"
    using assms(3) by (cases "n_node graphs") (simp_all add: get_first_node_indices_def)
  have gl: "g < length focus_rows" using assms(3) lidx by (simp add: focus_rows_def)
  have "clamp_index (length ?rows) (int ?s) = ?s"
    using in_range by (simp add: clamp_index_def)
  then have row: "focus_rows ! g = ?rows ! ?s"
    using gl lidx first by (simp add: focus_rows_def)
  have fe_simps: "ia_array fe = focus_rows" "ia_irreps fe = ia_irreps node_embeddings"
    by (simp_all add: fe_def)
  show "target_species_logits preds ! g
           = species_perceptron M (filter_keep (0, 1) (ia_irreps node_embeddings) (?rows ! ?s))"
    using MACE_target_species_logits_rows [OF heads(1)] gl row
    by (simp add: preds fe_simps)
  show "ia_array (position_coeffs preds) ! g
           = position_linear M (scale_row (ia_irreps node_embeddings)
               (species_embed M (target_species (globals graphs) ! g)) (?rows ! ?s))"
    using MACE_target_position_rows [OF heads(2)] gl row
    by (simp add: preds fe_simps)
qed

lemma demo_node_embeddings:
  "MACE_node_embeddings demo_modules demo_mace demo_fragment = Inr demo_embeddings"
  by (simp add: MACE_node_embeddings_def demo_modules_def demo_mace_def demo_fragment_def
      demo_embeddings_def jnp_getitem_def clamp_index_def broadcast2_def vec_sub_def
      vec_add_def vec_list_def incoming_def has_shape3_def irreps_dim_def axis_to_mul_def
      upt_rec Let_def)

lemma demo_heads:
  defines "fe \<equiv> demo_embeddings\<lparr>ia_array := [[1, - 1, - 1, 0], [1, 0, 0, 0]]\<rparr>"
  shows "MACE_target_species_logits demo_modules fe = Inr [[1, 1, 1, 1, 1], [1, 1, 1, 1, 1]]"
    and "MACE_target_position demo_modules demo_mace fe [0, 0]
      = Inr \<lparr>ia_irreps = [(1, (0, 1)), (1, (1, - 1))],
             ia_array = [replicate 64 [1, - 1, - 1, 0], replicate 64 [1, 0, 0, 0]]\<rparr>"
proof -
  show "MACE_target_species_logits demo_modules fe = Inr [[1, 1, 1, 1, 1], [1, 1, 1, 1, 1]]"
    by (simp add: MACE_target_species_logits_def fe_def demo_embeddings_def demo_modules_def
        has_shape2_def NUM_ELEMENTS_def Let_def numeral_eq_Suc)
  show "MACE_target_position demo_modules demo_mace fe [0, 0]
      = Inr \<lparr>ia_irreps = [(1, (0, 1)), (1, (1, - 1))],
             ia_array = [replicate 64 [1, - 1, - 1, 0], replicate 64 [1, 0, 0, 0]]\<rparr>"
    by (simp add: MACE_target_position_def fe_def demo_embeddings_def demo_modules_def
        demo_mace_def has_shape2_def has_shape3_def irreps_dim_def num_irreps_def
        s2_irreps_def length_RADII list_all_iff upt_rec Let_def)
qed

lemma demo_training_predictions:
  "get_training_predictions demo_modules demo_mace demo_fragment = Inr demo_predictions"
proof -
  have idx: "get_first_node_indices (n_node demo_fragment) = [0, 3]"
    by (simp add: get_first_node_indices_def demo_fragment_def cumsum_def int32_def)
  have rows: "jnp_getitem (ia_array demo_embeddings) [0, 3]
      = Inr [[1, - 1, - 1, 0], [1, 0, 0, 0]]"
    by (simp add: jnp_getitem_def clamp_index_def demo_embeddings_def)
  have ts: "target_species (globals demo_fragment) = [0, 0]"
    by (simp add: demo_fragment_def)
  show ?thesis
    unfolding get_training_predictions_def demo_node_embeddings then_do_Inr Let_def idx rows
      ts demo_heads
    by (simp add: demo_predictions_def MACE_focus_logits_def demo_embeddings_def
        demo_modules_def)
qed

lemma padded_node_embeddings:
  "MACE_node_embeddings demo_modules demo_mace padded_fragment = Inr demo_embeddings"
  using demo_node_embeddings
  by (simp add: MACE_node_embeddings_def padded_fragment_def)

lemma padded_training_predictions:
  "get_training_predictions demo_modules demo_mace padded_fragment = Inr demo_predictions"
proof -
  have idx: "get_first_node_indices (n_node padded_fragment) = [0, 4]"
    by (simp add: get_first_node_indices_def padded_fragment_def cumsum_def int32_def)
  have rows: "jnp_getitem (ia_array demo_embeddings) [0, 4]
      = Inr [[1, - 1, - 1, 0], [1, 0, 0, 0]]"
    by (simp add: jnp_getitem_def clamp_index_def demo_embeddings_def)
  have ts: "target_species (globals padded_fragment) = [0, 0]"
    by (simp add: padded_fragment_def demo_fragment_def)
  show ?thesis
    unfolding get_training_predictions_def padded_node_embeddings then_do_Inr Let_def idx rows
      ts demo_heads
    by (simp add: demo_predictions_def MACE_focus_logits_def demo_embeddings_def
        demo_modules_def)
qed




subsection \<open>The evaluation pass on the example batch\<close>

text \<open>
  One run of \<open>get_evaluation_predictions\<close>, stage by stage: the focus probabilities,
  the two focus draws, the species draws and the position coefficients, with the keys
  each stage receives.
\<close>

lemma demo_sampling_node_embeddings:
  "MACE_node_embeddings demo_sampling_modules demo_mace demo_fragment = Inr demo_embeddings"
  using demo_node_embeddings
  by (simp add: MACE_node_embeddings_def demo_sampling_modules_def)

lemma demo_focus_probs:
  "focus_probs demo_sampling_modules demo_embeddings demo_fragment
     = Inr [1 / 3, 1 / 3, 1 / 3, 1]"
  by (simp add: focus_probs_def MACE_focus_logits_def demo_sampling_modules_def
      demo_embeddings_def demo_fragment_def partition_softmax_def segment_softmax_def
      shifted_exponentials_def softmax_normalizers_def segment_sum_def segment_max_def
      segment_entries_def jnp_repeat_arange_def cumsum_def jnp_take_def jnp_getitem_def
      clamp_index_def broadcast2_def upt_rec Let_def)

lemma demo_segment_ids: "jnp_repeat_arange [3, 1] 4 = [0, 0, 0, 1]"
  by (simp add: jnp_repeat_arange_def cumsum_def jnp_take_def upt_rec Let_def)

lemma demo_focus_sample:
  "segment_sample demo_prng [1 / 3, 1 / 3, 1 / 3, 1] [0, 0, 0, 1] 2 171 = Inr [0, 3]"
  by (simp add: segment_sample_def sample_for_segment_def random_choice_def
      choice_index_def searchsorted_def masked_probabilities_def cumsum_def jnp_take_def
      random_split_def broadcast2_def demo_prng_def upt_rec Let_def)

lemma softmax_ones: "softmax [1, 1, 1, 1, 1] = [1 / 5, 1 / 5, 1 / 5, 1 / 5, 1 / 5]"
  by (simp add: softmax_def Let_def)

lemma demo_species_sample:
  "map (\<lambda>(key, p). random_choice_int demo_prng key NUM_ELEMENTS p)
     (zip [8353, 8354] [[1 / 5, 1 / 5, 1 / 5, 1 / 5, 1 / 5], [1 / 5, 1 / 5, 1 / 5, 1 / 5, 1 / 5]])
     = [3, 2]"
  by (simp add: random_choice_int_def choice_index_def searchsorted_def cumsum_def
      demo_prng_def Let_def)

lemma demo_evaluation:
  "get_evaluation_predictions demo_prng demo_sampling_modules demo_mace demo_fragment 3
     = Inr (demo_evaluation_predictions, 23)"
proof -
  have keys: "next_rng_key demo_prng 3 = (24, 23)"
    "random_split demo_prng 24 2 ! 0 = 170" "random_split demo_prng 24 2 ! 1 = 171"
    "random_split demo_prng 170 2 ! 0 = 1192" "random_split demo_prng 170 2 ! 1 = 1193"
    "random_split demo_prng 1193 2 = [8353, 8354]"
    by (simp_all add: next_rng_key_def random_split_def demo_prng_def upt_rec)
  have sizes: "length (positions (nodes demo_fragment)) = 4" "n_node demo_fragment = [3, 1]"
    "length [3, 1 :: nat] = 2"
    by (simp_all add: demo_fragment_def)
  have rows: "jnp_getitem (ia_array demo_embeddings) [0, 3]
      = Inr [[1, - 1, - 1, 0], [1, 0, 0, 0]]"
    by (simp add: jnp_getitem_def clamp_index_def demo_embeddings_def)
  define fe :: "real list list IrrepsArray" where
    "fe = \<lparr>ia_irreps = [(1, (0, 1)), (1, (1, - 1))],
            ia_array = [[1, - 1, - 1, 0], [1, 0, 0, 0]]\<rparr>"
  have fe: "demo_embeddings\<lparr>ia_array := [[1, - 1, - 1, 0], [1, 0, 0, 0]]\<rparr> = fe"
    by (simp add: demo_embeddings_def fe_def)
  have species_head: "MACE_target_species_logits demo_sampling_modules fe
      = Inr [[1, 1, 1, 1, 1], [1, 1, 1, 1, 1]]"
    by (simp add: MACE_target_species_logits_def fe_def demo_sampling_modules_def
        demo_modules_def has_shape2_def NUM_ELEMENTS_def Let_def numeral_eq_Suc)
  have position_head: "MACE_target_position demo_sampling_modules demo_mace fe [3, 2]
      = Inr \<lparr>ia_irreps = [(1, (0, 1)), (1, (1, - 1))],
             ia_array = [replicate 64 [1, - 1, - 1, 0], replicate 64 [1, 0, 0, 0]]\<rparr>"
    by (simp add: MACE_target_position_def fe_def demo_sampling_modules_def demo_modules_def
        demo_mace_def has_shape2_def has_shape3_def irreps_dim_def num_irreps_def
        s2_irreps_def length_RADII list_all_iff upt_rec Let_def)
  have logits: "MACE_focus_logits demo_sampling_modules demo_embeddings = [0, 0, 0, 0]"
    by (simp add: MACE_focus_logits_def demo_sampling_modules_def demo_embeddings_def)
  have zipped: "vmap_zip [8353, 8354 :: nat] (map softmax [[1, 1, 1, 1, 1], [1, 1, 1, 1, 1]])
      = Inr (zip [8353, 8354]
          [[1 / 5, 1 / 5, 1 / 5, 1 / 5, 1 / 5], [1 / 5, 1 / 5, 1 / 5, 1 / 5, 1 / 5]])"
    by (simp add: vmap_zip_def softmax_ones)
  show ?thesis
    unfolding get_evaluation_predictions_def keys prod.case Let_def sizes
      demo_sampling_node_embeddings then_do_Inr demo_focus_probs demo_segment_ids
      demo_focus_sample rows fe species_head zipped demo_species_sample position_head logits
      demo_evaluation_predictions_def
    by (rule refl)
qed

subsection \<open>The wrapper around the network of \<open>mace_jax\<close>\<close>

lemma length_rotate_blocks:
  assumes "\<forall>v. length v = b \<longrightarrow> length (V v) = b"
  shows "k * b \<le> length xs \<Longrightarrow> length (rotate_blocks V k b xs) = k * b"
proof (induction k arbitrary: xs)
  case 0
  then show ?case by simp
next
  case (Suc k)
  then have "b \<le> length xs" "k * b \<le> length (drop b xs)" by simp_all
  with Suc.IH [of "drop b xs"] assms show ?case by simp
qed

lemma rotate_blocks_append:
  "length xs = k1 * b \<Longrightarrow>
     rotate_blocks V (k1 + k2) b (xs @ ys) = rotate_blocks V k1 b xs @ rotate_blocks V k2 b ys"
proof (induction k1 arbitrary: xs)
  case 0
  then show ?case by simp
next
  case (Suc k1)
  then have b: "b \<le> length xs" and rest: "length (drop b xs) = k1 * b" by simp_all
  from Suc.IH [OF rest] b show ?case by simp
qed

lemma rotate_blocks_prefix:
  assumes "length xs = k * b"
  shows "rotate_blocks V k b (xs @ ys) = rotate_blocks V k b xs"
  using rotate_blocks_append [OF assms, of V 0 ys] by simp

lemma rotate_blocks_concat:
  assumes "\<forall>s \<in> set slices. length s = k * b"
  shows "rotate_blocks V (length slices * k) b (concat slices)
           = concat (map (rotate_blocks V k b) slices)"
  using assms
proof (induction slices)
  case Nil
  then show ?case by simp
next
  case (Cons s slices)
  then have s: "length s = k * b" by simp
  have "rotate_blocks V (k + length slices * k) b (s @ concat slices)
      = rotate_blocks V k b s @ rotate_blocks V (length slices * k) b (concat slices)"
    by (rule rotate_blocks_append [OF s])
  with Cons show ?case by simp
qed

lemma irreps_dim_Cons:
  "irreps_dim ((mul, (l, p)) # irs) = nat mul * (2 * l + 1) + irreps_dim irs"
  by (simp add: irreps_dim_def)

lemma length_rotate_row:
  assumes "\<forall>l v. length v = 2 * l + 1 \<longrightarrow> length (W l v) = 2 * l + 1"
  shows "length row = irreps_dim irs \<Longrightarrow> length (rotate_row W irs row) = irreps_dim irs"
proof (induction irs arbitrary: row)
  case Nil
  then show ?case by (simp add: irreps_dim_def)
next
  case (Cons ir irs)
  obtain mul l p where ir: "ir = (mul, (l, p))" by (cases ir) auto
  from Cons.prems have len: "length row = nat mul * (2 * l + 1) + irreps_dim irs"
    by (simp add: ir irreps_dim_Cons)
  have "length (rotate_blocks (W l) (nat mul) (2 * l + 1) row) = nat mul * (2 * l + 1)"
    using assms len by (intro length_rotate_blocks) simp_all
  moreover have "length (rotate_row W irs (drop (nat mul * (2 * l + 1)) row)) = irreps_dim irs"
    using len by (intro Cons.IH) simp
  ultimately show ?case by (simp add: ir irreps_dim_Cons)
qed

lemma axis_to_mul_row_rotate:
  assumes W: "\<forall>l v. length v = 2 * l + 1 \<longrightarrow> length (W l v) = 2 * l + 1"
  shows "\<forall>s \<in> set slices. length s = irreps_dim irs \<Longrightarrow>
           axis_to_mul_row irs (map (rotate_row W irs) slices)
             = rotate_row W (map (\<lambda>(mul, ir). (int (length slices) * mul, ir)) irs)
                 (axis_to_mul_row irs slices)"
proof (induction irs arbitrary: slices)
  case Nil
  then show ?case by simp
next
  case (Cons ir irs)
  obtain mul l p where ir: "ir = (mul, (l, p))" by (cases ir) auto
  define k where "k = nat mul"
  define b where "b = 2 * l + 1"
  define w where "w = k * b"
  define n where "n = length slices"
  let ?rest' = "map (\<lambda>(mul, ir). (int n * mul, ir)) irs"
  have len: "length s = w + irreps_dim irs" if "s \<in> set slices" for s
    using Cons.prems that by (simp add: ir irreps_dim_Cons w_def k_def b_def)
  have Wb: "\<forall>v. length v = b \<longrightarrow> length (W l v) = b"
    using W by (simp add: b_def)
  have split: "rotate_row W (ir # irs) s
      = rotate_blocks (W l) k b s @ rotate_row W irs (drop w s)" for s
    by (simp add: ir k_def b_def w_def)
  have head_len: "length (rotate_blocks (W l) k b s) = w" if "s \<in> set slices" for s
    unfolding w_def using len [OF that] by (intro length_rotate_blocks [OF Wb]) (simp add: w_def)
  have head_take: "rotate_blocks (W l) k b s = rotate_blocks (W l) k b (take w s)"
    if "s \<in> set slices" for s
  proof -
    have "length (take w s) = k * b" using len [OF that] by (simp add: w_def)
    from rotate_blocks_prefix [OF this, of "W l" "drop w s"] show ?thesis by simp
  qed
  have takes: "map (take w) (map (rotate_row W (ir # irs)) slices)
      = map (rotate_blocks (W l) k b) (map (take w) slices)"
    using head_len head_take by (simp add: split)
  have drops: "map (drop w) (map (rotate_row W (ir # irs)) slices)
      = map (rotate_row W irs) (map (drop w) slices)"
    using head_len by (simp add: split)
  have rest_len: "\<forall>s \<in> set (map (drop w) slices). length s = irreps_dim irs"
    using len by auto
  have IH: "axis_to_mul_row irs (map (rotate_row W irs) (map (drop w) slices))
      = rotate_row W ?rest' (axis_to_mul_row irs (map (drop w) slices))"
    using Cons.IH [OF rest_len] by (simp add: n_def)
  have step: "axis_to_mul_row (ir # irs) X
      = concat (map (take w) X) @ axis_to_mul_row irs (map (drop w) X)" for X
    by (simp add: ir w_def k_def b_def)
  have lhs: "axis_to_mul_row (ir # irs) (map (rotate_row W (ir # irs)) slices)
      = concat (map (rotate_blocks (W l) k b) (map (take w) slices))
        @ rotate_row W ?rest' (axis_to_mul_row irs (map (drop w) slices))"
    by (simp only: step takes drops IH)
  let ?C = "concat (map (take w) slices)"
  let ?A = "axis_to_mul_row irs (map (drop w) slices)"
  have all_w: "\<forall>s \<in> set (map (take w) slices). length s = k * b"
    using len by (auto simp: w_def)
  have C_len: "length ?C = (n * k) * b"
  proof -
    have "map length (map (take w) slices) = replicate n w"
      using len by (auto simp: n_def map_replicate_const [symmetric] intro!: map_cong)
    then show ?thesis by (simp add: length_concat sum_list_replicate w_def)
  qed
  have nk: "nat (int n * mul) = n * k"
    by (simp add: k_def nat_mult_distrib)
  have blocks: "rotate_blocks (W l) (n * k) b (?C @ ?A)
      = concat (map (rotate_blocks (W l) k b) (map (take w) slices))"
    using rotate_blocks_prefix [OF C_len, of "W l" ?A]
      rotate_blocks_concat [OF all_w, of "W l"] by (simp add: n_def)
  have rhs_step: "rotate_row W ((int n * mul, (l, p)) # ?rest') Y
      = rotate_blocks (W l) (n * k) b Y @ rotate_row W ?rest' (drop ((n * k) * b) Y)" for Y
    by (simp add: nk b_def)
  have irs': "map (\<lambda>(mul, ir). (int n * mul, ir)) (ir # irs) = (int n * mul, (l, p)) # ?rest'"
    by (simp add: ir)
  have dropC: "drop ((n * k) * b) (?C @ ?A) = ?A" using C_len by simp
  have rhs: "rotate_row W (map (\<lambda>(mul, ir). (int n * mul, ir)) (ir # irs))
        (axis_to_mul_row (ir # irs) slices)
      = rotate_blocks (W l) (n * k) b (?C @ ?A) @ rotate_row W ?rest' ?A"
    by (simp only: irs' step rhs_step dropC)
  show ?case unfolding lhs n_def [symmetric] rhs blocks ..
qed

lemma clamp_index_less: "0 < n \<Longrightarrow> clamp_index n i < n"
  by (simp add: clamp_index_def)

lemma jnp_getitem_map:
  "jnp_getitem (map f xs) idx
     = (case jnp_getitem xs idx of Inl e \<Rightarrow> Inl e | Inr ys \<Rightarrow> Inr (map f ys))"
proof (cases "xs = []")
  case True
  then show ?thesis by (cases idx) (simp_all add: jnp_getitem_def)
next
  case False
  then have "clamp_index (length xs) i < length xs" for i
    by (intro clamp_index_less) simp
  then have "map f xs ! clamp_index (length xs) i = f (xs ! clamp_index (length xs) i)" for i
    by (rule nth_map)
  with False show ?thesis by (simp add: jnp_getitem_def)
qed

lemma broadcast2_map:
  "broadcast2 (map f xs) (map f ys)
     = (case broadcast2 xs ys of Inl e \<Rightarrow> Inl e | Inr ps \<Rightarrow> Inr (map (map_prod f f) ps))"
proof -
  have hd1: "hd (map f zs) = f (hd zs)" if "length zs = 1" for zs
    using that by (cases zs) simp_all
  show ?thesis
    by (auto simp: broadcast2_def zip_map_map hd1 comp_def map_prod_def)
qed

lemma mat_vec_sub: "vec_sub (mat_vec R a) (mat_vec R b) = mat_vec R (vec_sub a b)"
  by (cases R; cases a; cases b) (auto simp: vec_sub_def mat_vec_def dot_def algebra_simps)

lemma mat_vec_add: "mat_vec R (vec_add a b) = vec_add (mat_vec R a) (mat_vec R b)"
  by (cases R; cases a; cases b) (auto simp: vec_add_def mat_vec_def dot_def algebra_simps)

lemma mat_vec_zero: "mat_vec R (0, 0, 0) = (0, 0, 0)"
  by (cases R) (auto simp: mat_vec_def dot_def)

lemma axis_to_mul_rotate:
  assumes W: "\<forall>l v. length v = 2 * l + 1 \<longrightarrow> length (W l v) = 2 * l + 1"
    and shape: "has_shape3 raw num_nodes n (irreps_dim irs)"
  shows "axis_to_mul n \<lparr>ia_irreps = irs, ia_array = map (map (rotate_row W irs)) raw\<rparr>
           = rotate_features W (axis_to_mul n \<lparr>ia_irreps = irs, ia_array = raw\<rparr>)"
proof -
  have "axis_to_mul_row irs (map (rotate_row W irs) slices)
      = rotate_row W (map (\<lambda>(mul, ir). (int n * mul, ir)) irs) (axis_to_mul_row irs slices)"
    if "slices \<in> set raw" for slices
  proof -
    from shape that have n: "length slices = n"
      and d: "\<forall>s \<in> set slices. length s = irreps_dim irs"
      by (auto simp: has_shape3_def list_all_iff)
    from axis_to_mul_row_rotate [OF W d] n show ?thesis by simp
  qed
  then show ?thesis
    by (simp add: axis_to_mul_def rotate_features_def)
qed

lemma has_shape3_rotate:
  assumes W: "\<forall>l v. length v = 2 * l + 1 \<longrightarrow> length (W l v) = 2 * l + 1"
    and shape: "has_shape3 raw num_nodes n (irreps_dim irs)"
  shows "has_shape3 (map (map (rotate_row W irs)) raw) num_nodes n (irreps_dim irs)"
  using shape length_rotate_row [OF W]
  by (auto simp: has_shape3_def list_all_iff)

text \<open>
  What the wrapper contributes to equivariance. Let \<open>R\<close> be any matrix and \<open>W\<close> any
  block-wise map that keeps the length of a block, and suppose the network of
  \<open>mace_jax\<close> turns relative vectors mapped by \<open>R\<close> into rows mapped block by block
  by \<open>W\<close>. Then \<open>MACE.node_embeddings\<close> turns positions mapped by \<open>R\<close> into embeddings
  mapped block by block by \<open>W\<close>: the relative vectors are differences of positions,
  species and edges are passed on unchanged, and \<open>axis_to_mul\<close> only regroups blocks.
  Whether the network itself has that property is decided inside \<open>mace_jax\<close>.
\<close>

lemma node_embeddings_commute:
  assumes "\<forall>l v. length v = 2 * l + 1 \<longrightarrow> length (W l v) = 2 * l + 1"
    and "\<forall>vectors sp src dst.
           mace_network M (map (mat_vec R) vectors) sp src dst
             = map (map (rotate_row W (output_irreps self)))
                 (mace_network M vectors sp src dst)"
    and "MACE_node_embeddings M self graphs = Inr node_embeddings"
  shows "MACE_node_embeddings M self (rotate_fragment R graphs)
           = Inr (rotate_features W node_embeddings)"
proof -
  let ?pos = "positions (nodes graphs)"
  let ?irs = "output_irreps self"
  from assms(3) obtain at_r at_s pairs where
    g1: "jnp_getitem ?pos (receivers graphs) = Inr at_r"
    and g2: "jnp_getitem ?pos (senders graphs) = Inr at_s"
    and b: "broadcast2 at_r at_s = Inr pairs"
    and rest: "(let vectors = map (\<lambda>(r, s). vec_sub r s) pairs;
           species' = species (nodes graphs);
           num_nodes = length species';
           node_embeddings =
             \<lparr>ia_irreps = ?irs,
              ia_array = mace_network M vectors species' (senders graphs) (receivers graphs)\<rparr>
       in if \<not> has_shape3 (ia_array node_embeddings) num_nodes (num_interactions self)
                 (irreps_dim ?irs)
          then Inl AssertionError
          else Inr (axis_to_mul (num_interactions self) node_embeddings)) = Inr node_embeddings"
    unfolding MACE_node_embeddings_def then_do_eq_Inr by blast
  define vectors where "vectors = map (\<lambda>(r, s). vec_sub r s) pairs"
  define raw where
    "raw = mace_network M vectors (species (nodes graphs)) (senders graphs) (receivers graphs)"
  from rest have shape:
    "has_shape3 raw (length (species (nodes graphs))) (num_interactions self) (irreps_dim ?irs)"
    and emb: "node_embeddings
      = axis_to_mul (num_interactions self) \<lparr>ia_irreps = ?irs, ia_array = raw\<rparr>"
    by (auto simp: Let_def raw_def vectors_def split: if_splits)
  let ?g = "rotate_fragment R graphs"
  have fields: "positions (nodes ?g) = map (mat_vec R) ?pos"
    "species (nodes ?g) = species (nodes graphs)"
    "senders ?g = senders graphs" "receivers ?g = receivers graphs"
    by (simp_all add: rotate_fragment_def)
  have g1': "jnp_getitem (map (mat_vec R) ?pos) (receivers graphs) = Inr (map (mat_vec R) at_r)"
    by (simp add: jnp_getitem_map g1)
  have g2': "jnp_getitem (map (mat_vec R) ?pos) (senders graphs) = Inr (map (mat_vec R) at_s)"
    by (simp add: jnp_getitem_map g2)
  have b': "broadcast2 (map (mat_vec R) at_r) (map (mat_vec R) at_s)
      = Inr (map (map_prod (mat_vec R) (mat_vec R)) pairs)"
    by (simp add: broadcast2_map b)
  have vectors': "map (\<lambda>(r, s). vec_sub r s) (map (map_prod (mat_vec R) (mat_vec R)) pairs)
      = map (mat_vec R) vectors"
    by (simp add: vectors_def mat_vec_sub case_prod_beta)
  have raw': "mace_network M (map (mat_vec R) vectors) (species (nodes graphs))
        (senders graphs) (receivers graphs)
      = map (map (rotate_row W ?irs)) raw"
    using assms(2) by (simp add: raw_def)
  have shape': "has_shape3 (map (map (rotate_row W ?irs)) raw)
      (length (species (nodes graphs))) (num_interactions self) (irreps_dim ?irs)"
    by (rule has_shape3_rotate [OF assms(1) shape])
  have "MACE_node_embeddings M self ?g
      = Inr (axis_to_mul (num_interactions self)
          \<lparr>ia_irreps = ?irs, ia_array = map (map (rotate_row W ?irs)) raw\<rparr>)"
    unfolding MACE_node_embeddings_def fields g1' g2' b' then_do_Inr vectors' Let_def raw'
    using shape' by simp
  also have "axis_to_mul (num_interactions self)
          \<lparr>ia_irreps = ?irs, ia_array = map (map (rotate_row W ?irs)) raw\<rparr>
      = rotate_features W node_embeddings"
    unfolding emb by (rule axis_to_mul_rotate [OF assms(1) shape])
  finally show ?thesis .
qed

lemma incoming_map:
  "incoming (map (mat_vec R) vectors) rcv i = mat_vec R (incoming vectors rcv i)"
proof -
  have "foldr vec_add (map fst (filter (\<lambda>(v, r). r = i) (zip (map (mat_vec R) vectors) rcv)))
          (0, 0, 0)
      = mat_vec R (foldr vec_add (map fst (filter (\<lambda>(v, r). r = i) (zip vectors rcv))) (0, 0, 0))"
  proof (induction vectors arbitrary: rcv)
    case Nil
    then show ?case by (simp add: mat_vec_zero)
  next
    case (Cons v vectors)
    then show ?case by (cases rcv) (simp_all add: mat_vec_zero mat_vec_add)
  qed
  then show ?thesis by (simp add: incoming_def)
qed

lemma demo_network_equivariant:
  "mace_network demo_modules (map (mat_vec R) vectors) sp src dst
     = map (map (rotate_row (demo_wigner R) (output_irreps demo_mace)))
         (mace_network demo_modules vectors sp src dst)"
proof -
  have "rotate_row (demo_wigner R) [(1, (0, 1)), (1, (1, - 1))] (s # vec_list v)
      = s # vec_list (mat_vec R v)" for s v
    by (cases v) (simp add: demo_wigner_def vec_list_def)
  then show ?thesis
    by (simp add: demo_modules_def demo_mace_def incoming_map)
qed

lemma node_embeddings_quarter_turn:
  "MACE_node_embeddings demo_modules demo_mace (rotate_fragment quarter_turn demo_fragment)
     = Inr (rotate_features (demo_wigner quarter_turn) demo_embeddings)
   \<and> ia_array (rotate_features (demo_wigner quarter_turn) demo_embeddings)
       = [[1, 1, - 1, 0], [0, 0, 1, 0], [0, - 1, 0, 0], [1, 0, 0, 0]]"
proof -
  have h2: "\<forall>l v. length v = 2 * l + 1
      \<longrightarrow> length (demo_wigner quarter_turn l v) = 2 * l + 1"
    by (simp add: demo_wigner_def vec_list_def mat_vec_def quarter_turn_def)
  have h3: "\<forall>vectors sp src dst.
      mace_network demo_modules (map (mat_vec quarter_turn) vectors) sp src dst
        = map (map (rotate_row (demo_wigner quarter_turn) (output_irreps demo_mace)))
            (mace_network demo_modules vectors sp src dst)"
    by (simp add: demo_network_equivariant)
  have rotated: "ia_array (rotate_features (demo_wigner quarter_turn) demo_embeddings)
       = [[1, 1, - 1, 0], [0, 0, 1, 0], [0, - 1, 0, 0], [1, 0, 0, 0]]"
    by (simp add: rotate_features_def demo_embeddings_def demo_wigner_def vec_list_def
        mat_vec_def dot_def quarter_turn_def)
  from node_embeddings_commute [OF h2 h3 demo_node_embeddings] rotated
  show ?thesis by simp
qed

end
